theory Spec2Isabelle
  imports Main
begin

section \<open>Types consumed from the type system\<close>

text \<open>
  An \<open>Identifier\<close> is a string; the unnamed identifier (\<open>Identifier::empty()\<close>) is the
  empty string.
\<close>

type_synonym Identifier = string

text \<open>
  \<open>TupleTypeElt\<close>: a field of a tuple type. \<open>Name\<close> is empty for an unnamed field,
  \<open>Init\<close> records whether the field carries a default value (the source only ever tests
  the initializer pointer against null).
\<close>

datatype 'ty TupleTypeElt = TupleTypeElt (Name: Identifier) (EltTy: 'ty) (Init: bool)

datatype Type =
    BuiltinType Identifier
  | DependentType
  | NameAliasType Identifier Type
  | TupleType "Type TupleTypeElt list"
  | FunctionType Type Type

text \<open>
  Modelled from the spec: the type system's queries are not part of \<open>Expr.cpp\<close>. The
  canonical type is the normalized form of a type, collapsing superficial spelling
  differences (here: named aliases); \<open>getAs\<close> and \<open>is\<close> look through the same sugar at
  the top of the type.
\<close>

fun getDesugaredType :: "Type \<Rightarrow> Type" where
  "getDesugaredType (NameAliasType n t) = getDesugaredType t"
| "getDesugaredType t = t"

primrec getCanonicalType :: "Type \<Rightarrow> Type" where
  "getCanonicalType (BuiltinType n) = BuiltinType n"
| "getCanonicalType DependentType = DependentType"
| "getCanonicalType (NameAliasType n t) = getCanonicalType t"
| "getCanonicalType (TupleType fs) = TupleType (map (map_TupleTypeElt getCanonicalType) fs)"
| "getCanonicalType (FunctionType i r) = FunctionType (getCanonicalType i) (getCanonicalType r)"

definition getAsTupleType :: "Type \<Rightarrow> Type TupleTypeElt list option" where
  "getAsTupleType t = (case getDesugaredType t of TupleType fs \<Rightarrow> Some fs | _ \<Rightarrow> None)"

definition getAsFunctionType :: "Type \<Rightarrow> (Type \<times> Type) option" where
  "getAsFunctionType t = (case getDesugaredType t of FunctionType i r \<Rightarrow> Some (i, r) | _ \<Rightarrow> None)"

definition isDependentType :: "Type \<Rightarrow> bool" where
  "isDependentType t = (case getDesugaredType t of DependentType \<Rightarrow> True | _ \<Rightarrow> False)"

text \<open>
  Modelled from the spec: \<open>TupleType::getFieldForScalarInit\<close> is not part of
  \<open>Expr.cpp\<close>. A tuple type is scalar-eligible when exactly one of its fields has no
  default value; the result is that field's index, and \<open>-1\<close> otherwise.
\<close>

definition getFieldForScalarInit :: "Type TupleTypeElt list \<Rightarrow> int" where
  "getFieldForScalarInit fs =
     (case filter (\<lambda>i. \<not> Init (fs ! i)) [0..<length fs] of
        [i] \<Rightarrow> int i
      | _ \<Rightarrow> - 1)"

section \<open>Expression nodes\<close>

datatype 'e Decl = ValueDecl Identifier "'e option" | OtherDecl Identifier

datatype 'e BraceElement = ElementExpr 'e | ElementDecl "'e Decl"

text \<open>
  The node kinds of \<open>Expr::getLocStart\<close>, each with its type \<open>Ty\<close> and the child slots
  the walker and the rank engine read. A slot the source tests against null before using
  it is an \<open>option\<close>. The third field of \<open>TupleExpr\<close> is the grouping-parenthesis flag.
\<close>

datatype Expr =
    IntegerLiteral (Ty: Type) string
  | DeclRefExpr (Ty: Type) Identifier
  | OverloadSetRefExpr (Ty: Type) "Identifier list"
  | UnresolvedDeclRefExpr (Ty: Type) Identifier
  | UnresolvedMemberExpr (Ty: Type) Identifier
  | UnresolvedScopedIdentifierExpr (Ty: Type) Identifier Identifier
  | TupleExpr (Ty: Type) "Expr option list" bool
  | UnresolvedDotExpr (Ty: Type) "Expr option" Identifier
  | TupleElementExpr (Ty: Type) Expr nat
  | ApplyExpr (Ty: Type) Expr Expr
  | SequenceExpr (Ty: Type) "Expr list"
  | BraceExpr (Ty: Type) "Expr BraceElement list"
  | ClosureExpr (Ty: Type) Expr
  | AnonClosureArgExpr (Ty: Type) nat
  | BinaryExpr (Ty: Type) "Expr option" Expr Expr

text \<open>
  Modelled from the spec: \<open>TupleExpr::isGroupingParen\<close> is declared outside
  \<open>Expr.cpp\<close>; a grouping parenthesis is a single-element tuple node with the flag set.
\<close>

definition isGroupingParen :: "Expr option list \<Rightarrow> bool \<Rightarrow> bool" where
  "isGroupingParen SubExprs flag = (length SubExprs = 1 \<and> flag)"

section \<open>Conversion ranks\<close>

datatype ConversionRank = CR_Identity | CR_AutoClosure | CR_Invalid

primrec rankOrd :: "ConversionRank \<Rightarrow> nat" where
  "rankOrd CR_Identity = 0"
| "rankOrd CR_AutoClosure = 1"
| "rankOrd CR_Invalid = 2"

text \<open>\<open>std::max(a, b)\<close> on the enumeration: \<open>b\<close> when \<open>a < b\<close>, otherwise \<open>a\<close>.\<close>

definition maxRank :: "ConversionRank \<Rightarrow> ConversionRank \<Rightarrow> ConversionRank" where
  "maxRank a b = (if rankOrd a < rankOrd b then b else a)"

text \<open>
  The ways the rank engine stops without a rank: a failed \<open>assert\<close>, the
  dereference of a null pointer and a read past the end of an array.
\<close>

datatype error = AssertionFailure | NullDereference | OutOfBounds

section \<open>Tuple reconciliation\<close>

text \<open>
  The inner loop of the named pass: the index of the first entry of \<open>IdentList\<close> equal to
  the destination name, scanning from index \<open>j\<close>; \<open>-1\<close> when there is none.
\<close>

fun findNamedInput :: "Identifier list \<Rightarrow> Identifier \<Rightarrow> nat \<Rightarrow> int" where
  "findNamedInput [] DestName j = - 1"
| "findNamedInput (Ident # Idents) DestName j =
     (if Ident = DestName then int j else findNamedInput Idents DestName (Suc j))"

text \<open>
  The named pass, over the destination fields from index \<open>i\<close> on. The state is
  \<open>(DestElementSources, UsedElements)\<close>.
\<close>

fun matchNamed ::
  "Identifier list \<Rightarrow> Type TupleTypeElt list \<Rightarrow> nat \<Rightarrow> int list \<times> bool list
     \<Rightarrow> int list \<times> bool list" where
  "matchNamed IdentList [] i st = st"
| "matchNamed IdentList (DestElt # rest) i (DestElementSources, UsedElements) =
     (if Name DestElt = [] then
        matchNamed IdentList rest (Suc i) (DestElementSources, UsedElements)
      else
        (let InputElement = findNamedInput IdentList (Name DestElt) 0 in
         if InputElement = - 1 then
           matchNamed IdentList rest (Suc i) (DestElementSources, UsedElements)
         else
           matchNamed IdentList rest (Suc i)
             (DestElementSources[i := InputElement],
              UsedElements[nat InputElement := True])))"

text \<open>
  The \<open>while (1)\<close> scan of the positional pass. The source leaves the loop when
  \<open>NextInputValue == NumExprElements\<close>; the cursor starts at 0 and moves one step at a
  time, so it never passes \<open>NumExprElements\<close> and the test is written \<open>\<le>\<close> here;
  \<open>scanUnnamedInput_source_form\<close> below is the source's equation for such cursors.
\<close>

function scanUnnamedInput :: "bool list \<Rightarrow> Identifier list \<Rightarrow> nat \<Rightarrow> nat \<Rightarrow> nat" where
  "scanUnnamedInput UsedElements IdentList NumExprElements NextInputValue =
     (if NumExprElements \<le> NextInputValue then NextInputValue
      else if \<not> UsedElements ! NextInputValue \<and> IdentList ! NextInputValue = [] then
        NextInputValue
      else scanUnnamedInput UsedElements IdentList NumExprElements (Suc NextInputValue))"
  by pat_completeness auto
termination
  by (relation "measure (\<lambda>(u, l, n, k). n - k)") auto

declare scanUnnamedInput.simps [simp del]

text \<open>
  The body of the positional pass for destination field \<open>i\<close>: the state is
  \<open>DestElementSources\<close>, \<open>UsedElements\<close> and the cursor \<open>NextInputValue\<close>. \<open>None\<close> is
  the early \<open>return Expr::CR_Invalid\<close>; \<open>-2\<close> marks a field that takes its default
  value.
\<close>

definition positionalStep ::
  "Identifier list \<Rightarrow> nat \<Rightarrow> Type TupleTypeElt \<Rightarrow> nat \<Rightarrow> int list \<Rightarrow> bool list \<Rightarrow> nat
     \<Rightarrow> (int list \<times> bool list \<times> nat) option" where
  "positionalStep IdentList NumExprElements DestElt i
       DestElementSources UsedElements NextInputValue =
     (if DestElementSources ! i \<noteq> - 1 then
        Some (DestElementSources, UsedElements, NextInputValue)
      else
        (let Next = scanUnnamedInput UsedElements IdentList NumExprElements NextInputValue in
         if Next = NumExprElements then
           (if \<not> Init DestElt then None
            else Some (DestElementSources[i := - 2], UsedElements, Next))
         else
           Some (DestElementSources[i := int Next], UsedElements[Next := True], Next)))"

text \<open>The positional pass, over the destination fields from index \<open>i\<close> on.\<close>

fun matchPositional ::
  "Identifier list \<Rightarrow> nat \<Rightarrow> Type TupleTypeElt list \<Rightarrow> nat \<Rightarrow> int list \<Rightarrow> bool list \<Rightarrow> nat
     \<Rightarrow> (int list \<times> bool list) option" where
  "matchPositional IdentList NumExprElements [] i DestElementSources UsedElements NextInputValue =
     Some (DestElementSources, UsedElements)"
| "matchPositional IdentList NumExprElements (DestElt # rest) i
       DestElementSources UsedElements NextInputValue =
     (case positionalStep IdentList NumExprElements DestElt i
             DestElementSources UsedElements NextInputValue of
        None \<Rightarrow> None
      | Some (DestElementSources', UsedElements', Next) \<Rightarrow>
          matchPositional IdentList NumExprElements rest (Suc i)
            DestElementSources' UsedElements' Next)"

text \<open>
  The three binding passes together. \<open>ETy\<close> is the tuple type of the source expression,
  when it has one: only then are the source names read and the named pass run; otherwise
  every source element counts as unnamed. The result is \<open>DestElementSources\<close>, or
  \<open>None\<close> for \<open>CR_Invalid\<close>.
\<close>

definition identListOf :: "Type TupleTypeElt list option \<Rightarrow> nat \<Rightarrow> Identifier list" where
  "identListOf ETy NumExprElements =
     (case ETy of None \<Rightarrow> replicate NumExprElements []
      | Some EFields \<Rightarrow> map Name EFields)"

definition reconcile ::
  "Type TupleTypeElt list option \<Rightarrow> nat \<Rightarrow> Type TupleTypeElt list \<Rightarrow> int list option" where
  "reconcile ETy NumExprElements DestFields =
     (let IdentList = identListOf ETy NumExprElements;
          st0 = (replicate (length DestFields) (- 1), replicate NumExprElements False);
          (DestElementSources, UsedElements) =
            (case ETy of None \<Rightarrow> st0 | Some EFields \<Rightarrow> matchNamed IdentList DestFields 0 st0)
      in case matchPositional IdentList NumExprElements DestFields 0
                DestElementSources UsedElements 0 of
           None \<Rightarrow> None
         | Some (DestElementSources', UsedElements') \<Rightarrow>
             if list_ex Not UsedElements' then None else Some DestElementSources')"

text \<open>
  The structural check of a tuple that is not converted in place: the bound element types
  must agree exactly, up to canonical types.
\<close>

fun structuralRank ::
  "Type TupleTypeElt list option \<Rightarrow> int list \<Rightarrow> nat \<Rightarrow> Type TupleTypeElt list
     \<Rightarrow> error + ConversionRank" where
  "structuralRank ETy DestElementSources i [] = Inr CR_Identity"
| "structuralRank ETy DestElementSources i (DestElt # rest) =
     (let SrcField = DestElementSources ! i in
      if SrcField = - 1 then Inl AssertionFailure
      else if SrcField = - 2 then structuralRank ETy DestElementSources (Suc i) rest
      else
        (case ETy of
           None \<Rightarrow> Inl NullDereference
         | Some EFields \<Rightarrow>
             if \<not> nat SrcField < length EFields then Inl OutOfBounds
             else if getCanonicalType (EltTy (EFields ! nat SrcField))
                       \<noteq> getCanonicalType (EltTy DestElt)
             then Inr CR_Invalid
             else structuralRank ETy DestElementSources (Suc i) rest))"

section \<open>The conversion rank engine\<close>

text \<open>\<open>dyn_cast<TupleExpr>(E)\<close>: the sub-expressions and the flag of a tuple node.\<close>

fun dynCastTupleExpr :: "Expr \<Rightarrow> (Expr option list \<times> bool) option" where
  "dynCastTupleExpr (TupleExpr T SubExprs flag) = Some (SubExprs, flag)"
| "dynCastTupleExpr E = None"

text \<open>
  The test \<open>dyn_cast<TupleExpr>(E)\<close> followed by \<open>TE->isGroupingParen()\<close>: the slot
  \<open>TE->SubExprs[0]\<close> of a grouping parenthesis, which may hold a null pointer.
\<close>

definition groupingParenSubExpr :: "Expr \<Rightarrow> Expr option option" where
  "groupingParenSubExpr E =
     (case dynCastTupleExpr E of
        Some (SubExprs, flag) \<Rightarrow>
          if isGroupingParen SubExprs flag then Some (SubExprs ! 0) else None
      | None \<Rightarrow> None)"

definition getElementType :: "Type TupleTypeElt list \<Rightarrow> nat \<Rightarrow> Type" where
  "getElementType Fields i = EltTy (Fields ! i)"

text \<open>
  \<open>getConversionRank\<close> and \<open>getTupleToTupleTypeConversionRank\<close> call each other
  (the latter through \<open>Expr::getRankOfConversionTo\<close>); \<open>literalRank\<close> is the loop
  that converts a tuple node in place, with \<open>CurRank\<close> as its accumulator. The
  \<open>ASTContext\<close> argument only serves canonicalisation and is left out. A block of the
  source that either returns or falls through yields \<open>Some\<close> of the returned rank or
  \<open>None\<close>.
\<close>

function getConversionRank :: "Expr \<Rightarrow> Type \<Rightarrow> error + ConversionRank"
  and getTupleToTupleTypeConversionRank ::
    "Expr \<Rightarrow> nat \<Rightarrow> Type TupleTypeElt list \<Rightarrow> error + ConversionRank"
  and literalRank ::
    "Expr option list \<Rightarrow> int list \<Rightarrow> nat \<Rightarrow> Type TupleTypeElt list \<Rightarrow> ConversionRank
       \<Rightarrow> error + ConversionRank"
where
  "getConversionRank E DestTy =
     (if isDependentType DestTy then Inl AssertionFailure
      else if getCanonicalType (Ty E) = getCanonicalType DestTy then Inr CR_Identity
      else
        (case groupingParenSubExpr E of
           Some None \<Rightarrow> Inl NullDereference
         | Some (Some SubExpr) \<Rightarrow> getConversionRank SubExpr DestTy
         | None \<Rightarrow>
             (case (case getAsTupleType DestTy of
                      None \<Rightarrow> None
                    | Some TT \<Rightarrow>
                        (case dynCastTupleExpr E of
                           Some (SubExprs, flag) \<Rightarrow>
                             Some (getTupleToTupleTypeConversionRank E (length SubExprs) TT)
                         | None \<Rightarrow>
                             (let ScalarFieldNo = getFieldForScalarInit TT in
                              if ScalarFieldNo \<noteq> - 1 then
                                Some (getConversionRank E
                                        (getElementType TT (nat ScalarFieldNo)))
                              else
                                (case getAsTupleType (Ty E) of
                                   Some ETy \<Rightarrow>
                                     Some (getTupleToTupleTypeConversionRank E (length ETy) TT)
                                 | None \<Rightarrow> None)))) of
                Some Rank \<Rightarrow> Rank
              | None \<Rightarrow>
                  (case getAsFunctionType DestTy of
                     Some (FTInput, FTResult) \<Rightarrow>
                       (case getConversionRank E FTResult of
                          Inl err \<Rightarrow> Inl err
                        | Inr Rank \<Rightarrow>
                            if Rank = CR_Invalid then Inr CR_Invalid else Inr CR_AutoClosure)
                   | None \<Rightarrow> Inr CR_Invalid))))"
| "getTupleToTupleTypeConversionRank E NumExprElements DestFields =
     (let ETy = getAsTupleType (Ty E) in
      if (case ETy of Some EFields \<Rightarrow> length EFields \<noteq> NumExprElements | None \<Rightarrow> False)
      then Inl AssertionFailure
      else
        (case reconcile ETy NumExprElements DestFields of
           None \<Rightarrow> Inr CR_Invalid
         | Some DestElementSources \<Rightarrow>
             (case dynCastTupleExpr E of
                Some (SubExprs, flag) \<Rightarrow>
                  if length SubExprs \<noteq> 1 \<and> length SubExprs = length DestFields then
                    literalRank SubExprs DestElementSources 0 DestFields CR_Identity
                  else structuralRank ETy DestElementSources 0 DestFields
              | None \<Rightarrow> structuralRank ETy DestElementSources 0 DestFields)))"
| "literalRank SubExprs DestElementSources i [] CurRank = Inr CurRank"
| "literalRank SubExprs DestElementSources i (DestElt # rest) CurRank =
     (let SrcField = DestElementSources ! i in
      if SrcField = - 1 then Inl AssertionFailure
      else if SrcField = - 2 then literalRank SubExprs DestElementSources (Suc i) rest CurRank
      else if \<not> nat SrcField < length SubExprs then Inl OutOfBounds
      else
        (case SubExprs ! nat SrcField of
           None \<Rightarrow> Inl NullDereference
         | Some Elt \<Rightarrow>
             (case getConversionRank Elt (EltTy DestElt) of
                Inl err \<Rightarrow> Inl err
              | Inr Rank \<Rightarrow>
                  literalRank SubExprs DestElementSources (Suc i) rest (maxRank CurRank Rank))))"
  by pat_completeness auto
termination
proof -
  have nth_lt: "size e < size_list (size_option size) xs"
    if "k < length xs" and "xs ! k = Some e" for k and xs :: "Expr option list" and e
    using that
  proof (induction xs arbitrary: k)
    case Nil
    then show ?case by simp
  next
    case (Cons x xs)
    show ?case
    proof (cases k)
      case 0
      with Cons.prems show ?thesis by simp
    next
      case (Suc j)
      with Cons.prems Cons.IH[of j] show ?thesis by simp
    qed
  qed
  have cast_lt: "size_list (size_option size) SubExprs < size E"
    if "dynCastTupleExpr E = Some (SubExprs, flag)" for E SubExprs flag
    using that by (cases E) simp_all
  have paren_lt: "size SubExpr < size E"
    if a: "groupingParenSubExpr E = Some (Some SubExpr)" for E SubExpr
  proof -
    from a obtain SubExprs flag where d: "dynCastTupleExpr E = Some (SubExprs, flag)"
      and g: "isGroupingParen SubExprs flag" and s: "SubExprs ! 0 = Some SubExpr"
      by (auto simp: groupingParenSubExpr_def split: option.splits if_splits)
    from g have l: "0 < length SubExprs" by (simp add: isGroupingParen_def)
    from nth_lt[OF l s] cast_lt[OF d] show ?thesis by simp
  qed
  have desugar_le: "size (getDesugaredType t) \<le> size t" for t
    by (induction t rule: getDesugaredType.induct) auto
  have tuple_lt: "size_list (size_TupleTypeElt size) fs < size D"
    if "getAsTupleType D = Some fs" for D fs
  proof -
    from that have "getDesugaredType D = TupleType fs"
      by (simp add: getAsTupleType_def split: Type.splits)
    with desugar_le[of D] show ?thesis by simp
  qed
  have fun_lt: "size FTResult < size D"
    if "getAsFunctionType D = Some (FTInput, FTResult)" for D FTInput FTResult
  proof -
    from that have "getDesugaredType D = FunctionType FTInput FTResult"
      by (simp add: getAsFunctionType_def split: Type.splits)
    with desugar_le[of D] show ?thesis by simp
  qed
  have elt_le: "size (EltTy f) \<le> size_TupleTypeElt size f" for f :: "Type TupleTypeElt"
    by (cases f) simp
  have field_lt: "size (getElementType fs i) < size_list (size_TupleTypeElt size) fs"
    if "i < length fs" for fs i
    using that
  proof (induction fs arbitrary: i)
    case Nil
    then show ?case by simp
  next
    case (Cons f fs)
    show ?case
    proof (cases i)
      case 0
      then show ?thesis using elt_le[of f] by (simp add: getElementType_def)
    next
      case (Suc j)
      then show ?thesis using Cons.IH[of j] Cons.prems by (simp add: getElementType_def)
    qed
  qed
  have scalar_lt: "size (getElementType TT (nat (getFieldForScalarInit TT))) < size D"
    if t: "getAsTupleType D = Some TT" and n: "getFieldForScalarInit TT \<noteq> - 1" for D TT
  proof -
    from n obtain i where f: "filter (\<lambda>i. \<not> Init (TT ! i)) [0..<length TT] = [i]"
      and g: "getFieldForScalarInit TT = int i"
      by (auto simp: getFieldForScalarInit_def split: list.splits)
    have "i \<in> set (filter (\<lambda>i. \<not> Init (TT ! i)) [0..<length TT])" using f by simp
    then have "i < length TT" by simp
    from field_lt[OF this] tuple_lt[OF t] g show ?thesis by simp
  qed
  have lit_lt: "size Elt + size (EltTy DestElt)
                  < Suc (size_list (size_option size) SubExprs + (size_TupleTypeElt size DestElt + n))"
    if "k < length SubExprs" and "SubExprs ! k = Some Elt"
    for k n and SubExprs :: "Expr option list" and Elt and DestElt :: "Type TupleTypeElt"
    using nth_lt[OF that] elt_le[of DestElt] by simp
  show ?thesis
    by (relation "measure (\<lambda>x. case x of
            Inl (E, D) \<Rightarrow> size E + size D
          | Inr (Inl (E, N, fs)) \<Rightarrow> size E + size_list (size_TupleTypeElt size) fs
          | Inr (Inr (Subs, srcs, i, fs, cur)) \<Rightarrow>
              size_list (size_option size) Subs + size_list (size_TupleTypeElt size) fs)")
       (auto simp: paren_lt tuple_lt cast_lt scalar_lt fun_lt lit_lt)
qed

declare getConversionRank.simps [simp del]
declare getTupleToTupleTypeConversionRank.simps [simp del]

section \<open>The expression walker\<close>

datatype WalkOrder = Walk_PreOrder | Walk_PostOrder

text \<open>
  The walk function \<open>Fn\<close> with its \<open>Data\<close> pointer: a function of the node, the order
  and the data behind the pointer, returning a node or null together with the new data.
  The walker writes each processed child back into its slot; here \<open>Visit\<close> returns the
  node with the new children. The five functions are \<open>ProcessNode\<close>, the dispatch of
  \<open>Visit\<close> to the \<open>Visit...Expr\<close> methods, and the loops of \<open>VisitTupleExpr\<close>,
  \<open>VisitSequenceExpr\<close> and \<open>VisitBraceExpr\<close>.
\<close>

type_synonym 'd WalkFn = "Expr \<Rightarrow> WalkOrder \<Rightarrow> 'd \<Rightarrow> Expr option \<times> 'd"

function (sequential) ProcessNode :: "'d WalkFn \<Rightarrow> Expr \<Rightarrow> 'd \<Rightarrow> Expr option \<times> 'd"
  and Visit :: "'d WalkFn \<Rightarrow> Expr \<Rightarrow> 'd \<Rightarrow> Expr option \<times> 'd"
  and VisitTupleElements ::
    "'d WalkFn \<Rightarrow> Expr option list \<Rightarrow> 'd \<Rightarrow> Expr option list option \<times> 'd"
  and VisitSequenceElements :: "'d WalkFn \<Rightarrow> Expr list \<Rightarrow> 'd \<Rightarrow> Expr list option \<times> 'd"
  and VisitBraceElements ::
    "'d WalkFn \<Rightarrow> Expr BraceElement list \<Rightarrow> 'd \<Rightarrow> Expr BraceElement list option \<times> 'd"
where
  "ProcessNode Fn E Data =
     (case Fn E Walk_PreOrder Data of
        (None, Data1) \<Rightarrow> (Some E, Data1)
      | (Some E2, Data1) \<Rightarrow>
          (case Visit Fn E Data1 of
             (None, Data2) \<Rightarrow> (None, Data2)
           | (Some E', Data2) \<Rightarrow> Fn E' Walk_PostOrder Data2))"
| "Visit Fn (IntegerLiteral T v) Data = (Some (IntegerLiteral T v), Data)"
| "Visit Fn (DeclRefExpr T D) Data = (Some (DeclRefExpr T D), Data)"
| "Visit Fn (OverloadSetRefExpr T Ds) Data = (Some (OverloadSetRefExpr T Ds), Data)"
| "Visit Fn (UnresolvedDeclRefExpr T N) Data = (Some (UnresolvedDeclRefExpr T N), Data)"
| "Visit Fn (UnresolvedMemberExpr T N) Data = (Some (UnresolvedMemberExpr T N), Data)"
| "Visit Fn (UnresolvedScopedIdentifierExpr T TD N) Data =
     (Some (UnresolvedScopedIdentifierExpr T TD N), Data)"
| "Visit Fn (TupleExpr T SubExprs flag) Data =
     (case VisitTupleElements Fn SubExprs Data of
        (None, Data1) \<Rightarrow> (None, Data1)
      | (Some SubExprs', Data1) \<Rightarrow> (Some (TupleExpr T SubExprs' flag), Data1))"
| "Visit Fn (UnresolvedDotExpr T None N) Data = (Some (UnresolvedDotExpr T None N), Data)"
| "Visit Fn (UnresolvedDotExpr T (Some SubExpr) N) Data =
     (case ProcessNode Fn SubExpr Data of
        (None, Data1) \<Rightarrow> (None, Data1)
      | (Some E2, Data1) \<Rightarrow> (Some (UnresolvedDotExpr T (Some E2) N), Data1))"
| "Visit Fn (TupleElementExpr T SubExpr FieldNo) Data =
     (case ProcessNode Fn SubExpr Data of
        (None, Data1) \<Rightarrow> (None, Data1)
      | (Some E2, Data1) \<Rightarrow> (Some (TupleElementExpr T E2 FieldNo), Data1))"
| "Visit Fn (ApplyExpr T FnExpr Arg) Data =
     (case ProcessNode Fn FnExpr Data of
        (None, Data1) \<Rightarrow> (None, Data1)
      | (Some E2, Data1) \<Rightarrow>
          (case ProcessNode Fn Arg Data1 of
             (None, Data2) \<Rightarrow> (None, Data2)
           | (Some E3, Data2) \<Rightarrow> (Some (ApplyExpr T E2 E3), Data2)))"
| "Visit Fn (SequenceExpr T Elements) Data =
     (case VisitSequenceElements Fn Elements Data of
        (None, Data1) \<Rightarrow> (None, Data1)
      | (Some Elements', Data1) \<Rightarrow> (Some (SequenceExpr T Elements'), Data1))"
| "Visit Fn (BraceExpr T Elements) Data =
     (case VisitBraceElements Fn Elements Data of
        (None, Data1) \<Rightarrow> (None, Data1)
      | (Some Elements', Data1) \<Rightarrow> (Some (BraceExpr T Elements'), Data1))"
| "Visit Fn (ClosureExpr T Input) Data =
     (case ProcessNode Fn Input Data of
        (None, Data1) \<Rightarrow> (None, Data1)
      | (Some E2, Data1) \<Rightarrow> (Some (ClosureExpr T E2), Data1))"
| "Visit Fn (AnonClosureArgExpr T ArgNo) Data = (Some (AnonClosureArgExpr T ArgNo), Data)"
| "Visit Fn (BinaryExpr T FnExpr LHS RHS) Data =
     (case ProcessNode Fn LHS Data of
        (None, Data1) \<Rightarrow> (None, Data1)
      | (Some E2, Data1) \<Rightarrow>
          (case ProcessNode Fn RHS Data1 of
             (None, Data2) \<Rightarrow> (None, Data2)
           | (Some E3, Data2) \<Rightarrow> (Some (BinaryExpr T FnExpr E2 E3), Data2)))"
| "VisitTupleElements Fn [] Data = (Some [], Data)"
| "VisitTupleElements Fn (None # rest) Data =
     (case VisitTupleElements Fn rest Data of
        (None, Data1) \<Rightarrow> (None, Data1)
      | (Some rest', Data1) \<Rightarrow> (Some (None # rest'), Data1))"
| "VisitTupleElements Fn (Some SubExpr # rest) Data =
     (case ProcessNode Fn SubExpr Data of
        (None, Data1) \<Rightarrow> (None, Data1)
      | (Some Elt, Data1) \<Rightarrow>
          (case VisitTupleElements Fn rest Data1 of
             (None, Data2) \<Rightarrow> (None, Data2)
           | (Some rest', Data2) \<Rightarrow> (Some (Some Elt # rest'), Data2)))"
| "VisitSequenceElements Fn [] Data = (Some [], Data)"
| "VisitSequenceElements Fn (Element # rest) Data =
     (case ProcessNode Fn Element Data of
        (None, Data1) \<Rightarrow> (None, Data1)
      | (Some Elt, Data1) \<Rightarrow>
          (case VisitSequenceElements Fn rest Data1 of
             (None, Data2) \<Rightarrow> (None, Data2)
           | (Some rest', Data2) \<Rightarrow> (Some (Elt # rest'), Data2)))"
| "VisitBraceElements Fn [] Data = (Some [], Data)"
| "VisitBraceElements Fn (ElementExpr SubExpr # rest) Data =
     (case ProcessNode Fn SubExpr Data of
        (None, Data1) \<Rightarrow> (None, Data1)
      | (Some E2, Data1) \<Rightarrow>
          (case VisitBraceElements Fn rest Data1 of
             (None, Data2) \<Rightarrow> (None, Data2)
           | (Some rest', Data2) \<Rightarrow> (Some (ElementExpr E2 # rest'), Data2)))"
| "VisitBraceElements Fn (ElementDecl (ValueDecl N (Some InitExpr)) # rest) Data =
     (case ProcessNode Fn InitExpr Data of
        (None, Data1) \<Rightarrow> (None, Data1)
      | (Some E2, Data1) \<Rightarrow>
          (case VisitBraceElements Fn rest Data1 of
             (None, Data2) \<Rightarrow> (None, Data2)
           | (Some rest', Data2) \<Rightarrow>
               (Some (ElementDecl (ValueDecl N (Some E2)) # rest'), Data2)))"
| "VisitBraceElements Fn (ElementDecl D # rest) Data =
     (case VisitBraceElements Fn rest Data of
        (None, Data1) \<Rightarrow> (None, Data1)
      | (Some rest', Data1) \<Rightarrow> (Some (ElementDecl D # rest'), Data1))"
  by pat_completeness auto
termination
  by (relation "measure (\<lambda>x. case x of
          Inl (Inl (Fn, E, Data)) \<Rightarrow> 2 * size E + 1
        | Inl (Inr (Fn, E, Data)) \<Rightarrow> 2 * size E
        | Inr (Inl (Fn, SubExprs, Data)) \<Rightarrow> 2 * size_list (size_option size) SubExprs + 1
        | Inr (Inr (Inl (Fn, Elements, Data))) \<Rightarrow> 2 * size_list size Elements + 1
        | Inr (Inr (Inr (Fn, Elements, Data))) \<Rightarrow>
            2 * size_list (size_BraceElement size) Elements + 1)")
     auto

text \<open>\<open>Expr::WalkExpr\<close>: \<open>ExprWalker(Fn, Data).doIt(this)\<close>.\<close>

definition WalkExpr :: "'d WalkFn \<Rightarrow> Expr \<Rightarrow> 'd \<Rightarrow> Expr option \<times> 'd" where
  "WalkExpr Fn E Data = ProcessNode Fn E Data"

section \<open>Tuple reconciliation, as the binding it computes\<close>

text \<open>
  The source element that the named pass finds for a destination field: \<open>-1\<close> for an
  unnamed field and for a name no source element carries.
\<close>

definition namedSource :: "Identifier list \<Rightarrow> Type TupleTypeElt \<Rightarrow> int" where
  "namedSource IL f = (if Name f = [] then - 1 else findNamedInput IL (Name f) 0)"

text \<open>
  The source elements from index \<open>Next\<close> on that are neither used nor named, in order:
  the elements the positional pass can still hand out.
\<close>

definition unusedUnnamed :: "Identifier list \<Rightarrow> bool list \<Rightarrow> nat \<Rightarrow> nat \<Rightarrow> nat list" where
  "unusedUnnamed IdentList UsedElements Next NumExprElements =
     filter (\<lambda>j. \<not> UsedElements ! j \<and> IdentList ! j = []) [Next..<NumExprElements]"

text \<open>
  The number of destination fields before field \<open>i\<close> that the named pass left
  unresolved.
\<close>

definition unresolvedBefore :: "int list \<Rightarrow> nat \<Rightarrow> nat" where
  "unresolvedBefore DestElementSources i =
     length (filter (\<lambda>s. s = - 1) (take i DestElementSources))"

text \<open>
  The positional pass as the consumption of a list of free source elements: each
  unresolved field takes the next free element, and \<open>- 2\<close> (when it has a default) or
  failure once the list is empty. The result is the new bindings and the elements
  consumed.
\<close>

fun positionalSpec ::
  "Type TupleTypeElt list \<Rightarrow> int list \<Rightarrow> nat list \<Rightarrow> (int list \<times> nat list) option" where
  "positionalSpec [] ss free = Some ([], [])"
| "positionalSpec (f # fs) [] free = None"
| "positionalSpec (f # fs) (s # ss) free =
     (if s \<noteq> - 1 then map_option (\<lambda>(r, c). (s # r, c)) (positionalSpec fs ss free)
      else
        (case free of
           [] \<Rightarrow>
             if \<not> Init f then None
             else map_option (\<lambda>(r, c). (- 2 # r, c)) (positionalSpec fs ss [])
         | j # free' \<Rightarrow> map_option (\<lambda>(r, c). (int j # r, j # c)) (positionalSpec fs ss free')))"

definition markUsed :: "nat list \<Rightarrow> bool list \<Rightarrow> bool list" where
  "markUsed c U = fold (\<lambda>j u. u[j := True]) c U"

section \<open>The walker's contract\<close>

text \<open>
  The structural children of a node in the order in which the walker processes them:
  tuple elements that are present, the sub-expression of a member projection, callee and
  argument, sequence elements, block items (an expression, or the initializer of a value
  declaration), the closure input, left and right operand.
\<close>

fun braceChildren :: "Expr BraceElement \<Rightarrow> Expr list" where
  "braceChildren (ElementExpr E) = [E]"
| "braceChildren (ElementDecl (ValueDecl N (Some InitExpr))) = [InitExpr]"
| "braceChildren (ElementDecl D) = []"

fun directChildren :: "Expr \<Rightarrow> Expr list" where
  "directChildren (TupleExpr T SubExprs flag) = concat (map (\<lambda>S. case S of None \<Rightarrow> [] | Some E \<Rightarrow> [E]) SubExprs)"
| "directChildren (UnresolvedDotExpr T None N) = []"
| "directChildren (UnresolvedDotExpr T (Some SubExpr) N) = [SubExpr]"
| "directChildren (TupleElementExpr T SubExpr FieldNo) = [SubExpr]"
| "directChildren (ApplyExpr T FnExpr Arg) = [FnExpr, Arg]"
| "directChildren (SequenceExpr T Elements) = Elements"
| "directChildren (BraceExpr T Elements) = concat (map braceChildren Elements)"
| "directChildren (ClosureExpr T Input) = [Input]"
| "directChildren (BinaryExpr T FnExpr LHS RHS) = [LHS, RHS]"
| "directChildren E = []"

text \<open>
  A list of nodes processed one after the other, stopping at the first one that aborts.
\<close>

fun processInOrder :: "'d WalkFn \<Rightarrow> Expr list \<Rightarrow> 'd \<Rightarrow> Expr list option \<times> 'd" where
  "processInOrder Fn [] Data = (Some [], Data)"
| "processInOrder Fn (Child # rest) Data =
     (case ProcessNode Fn Child Data of
        (None, Data1) \<Rightarrow> (None, Data1)
      | (Some Child', Data1) \<Rightarrow>
          (case processInOrder Fn rest Data1 of
             (None, Data2) \<Rightarrow> (None, Data2)
           | (Some rest', Data2) \<Rightarrow> (Some (Child' # rest'), Data2)))"

text \<open>
  A node with new nodes written into its child slots, in the order of
  \<open>directChildren\<close>: what the walker leaves in the node after its children have been
  processed. Slots that hold no expression are kept.
\<close>

fun replaceTupleElements :: "Expr option list \<Rightarrow> Expr list \<Rightarrow> Expr option list" where
  "replaceTupleElements [] Children = []"
| "replaceTupleElements (None # rest) Children = None # replaceTupleElements rest Children"
| "replaceTupleElements (Some SubExpr # rest) [] = Some SubExpr # rest"
| "replaceTupleElements (Some SubExpr # rest) (Child # Children) =
     Some Child # replaceTupleElements rest Children"

fun replaceBraceElements :: "Expr BraceElement list \<Rightarrow> Expr list \<Rightarrow> Expr BraceElement list" where
  "replaceBraceElements [] Children = []"
| "replaceBraceElements (ElementExpr SubExpr # rest) [] = ElementExpr SubExpr # rest"
| "replaceBraceElements (ElementExpr SubExpr # rest) (Child # Children) =
     ElementExpr Child # replaceBraceElements rest Children"
| "replaceBraceElements (ElementDecl (ValueDecl N (Some InitExpr)) # rest) [] =
     ElementDecl (ValueDecl N (Some InitExpr)) # rest"
| "replaceBraceElements (ElementDecl (ValueDecl N (Some InitExpr)) # rest) (Child # Children) =
     ElementDecl (ValueDecl N (Some Child)) # replaceBraceElements rest Children"
| "replaceBraceElements (ElementDecl D # rest) Children =
     ElementDecl D # replaceBraceElements rest Children"

fun withChildren :: "Expr \<Rightarrow> Expr list \<Rightarrow> Expr" where
  "withChildren (TupleExpr T SubExprs flag) Children =
     TupleExpr T (replaceTupleElements SubExprs Children) flag"
| "withChildren (UnresolvedDotExpr T (Some SubExpr) N) [Child] = UnresolvedDotExpr T (Some Child) N"
| "withChildren (TupleElementExpr T SubExpr FieldNo) [Child] = TupleElementExpr T Child FieldNo"
| "withChildren (ApplyExpr T FnExpr Arg) [Child1, Child2] = ApplyExpr T Child1 Child2"
| "withChildren (SequenceExpr T Elements) Children = SequenceExpr T Children"
| "withChildren (BraceExpr T Elements) Children =
     BraceExpr T (replaceBraceElements Elements Children)"
| "withChildren (ClosureExpr T Input) [Child] = ClosureExpr T Child"
| "withChildren (BinaryExpr T FnExpr LHS RHS) [Child1, Child2] = BinaryExpr T FnExpr Child1 Child2"
| "withChildren E Children = E"

text \<open>
  A walk function whose non-null \<open>Walk_PreOrder\<close> result is replaced by another node;
  everything else (the null results, the data, the \<open>Walk_PostOrder\<close> calls) is that of
  \<open>Fn\<close>.
\<close>

definition withPreOrderResult :: "(Expr \<Rightarrow> Expr) \<Rightarrow> 'd WalkFn \<Rightarrow> 'd WalkFn" where
  "withPreOrderResult g Fn E Order Data =
     (case Order of
        Walk_PreOrder \<Rightarrow>
          (case Fn E Walk_PreOrder Data of
             (None, Data1) \<Rightarrow> (None, Data1)
           | (Some E2, Data1) \<Rightarrow> (Some (g E2), Data1))
      | Walk_PostOrder \<Rightarrow> Fn E Walk_PostOrder Data)"


text \<open>
  Two results agree on the data and on whether they abort.
\<close>

definition sameOutcome :: "'a option \<times> 'd \<Rightarrow> 'b option \<times> 'd \<Rightarrow> bool" where
  "sameOutcome r s = (snd r = snd s \<and> (fst r = None) = (fst s = None))"


section \<open>Example inputs\<close>

definition IntTy :: Type where
  "IntTy = BuiltinType ''Int''"

text \<open>
  Two walk functions that log every call in their data: one aborts at the post-order
  call for a target node, the other rejects the target at its pre-order call.
\<close>

definition abortAtPostOrderOf :: "Expr \<Rightarrow> (Expr \<times> WalkOrder) list WalkFn" where
  "abortAtPostOrderOf Target E Order Log =
     (if E = Target \<and> Order = Walk_PostOrder then None else Some E, Log @ [(E, Order)])"

definition rejectAtPreOrderOf :: "Expr \<Rightarrow> (Expr \<times> WalkOrder) list WalkFn" where
  "rejectAtPreOrderOf Target E Order Log =
     (if E = Target \<and> Order = Walk_PreOrder then None else Some E, Log @ [(E, Order)])"

definition exCallee :: Expr where "exCallee = DeclRefExpr (FunctionType IntTy IntTy) ''f''"
definition exArg :: Expr where "exArg = DeclRefExpr IntTy ''x''"
definition exApply :: Expr where "exApply = ApplyExpr IntTy exCallee exArg"

definition exFirst :: Expr where "exFirst = DeclRefExpr IntTy ''a''"
definition exInner :: Expr where "exInner = IntegerLiteral IntTy ''1''"
definition exSecond :: Expr where "exSecond = TupleExpr IntTy [Some exInner] True"
definition exThird :: Expr where "exThird = DeclRefExpr IntTy ''c''"
definition exSequence :: Expr where "exSequence = SequenceExpr IntTy [exFirst, exSecond, exThird]"


text \<open>
  Tuple types and tuple expressions: the literal \<open>(y: 4, x: 3)\<close>, a reference of
  the same type, the literal \<open>(1, 2)\<close>, and destination field lists.
\<close>

definition exSwizzleTy :: Type where
  "exSwizzleTy = TupleType [TupleTypeElt ''y'' IntTy False, TupleTypeElt ''x'' IntTy False]"

definition exSwizzle :: Expr where
  "exSwizzle = TupleExpr exSwizzleTy
                 [Some (IntegerLiteral IntTy ''4''), Some (IntegerLiteral IntTy ''3'')] False"

definition exPairTy :: Type where
  "exPairTy = TupleType [TupleTypeElt [] IntTy False, TupleTypeElt [] IntTy False]"

definition exPair :: Expr where
  "exPair = TupleExpr exPairTy
              [Some (IntegerLiteral IntTy ''1''), Some (IntegerLiteral IntTy ''2'')] False"

definition exXY :: "Type TupleTypeElt list" where
  "exXY = [TupleTypeElt ''x'' IntTy False, TupleTypeElt ''y'' IntTy False]"


definition exSwizzleRef :: Expr where
  "exSwizzleRef = DeclRefExpr exSwizzleTy ''t''"

definition exThunkTy :: Type where
  "exThunkTy = FunctionType (TupleType []) IntTy"

definition exThunkPair :: "Type TupleTypeElt list" where
  "exThunkPair = [TupleTypeElt ''f'' exThunkTy False, TupleTypeElt [] IntTy False]"

definition exThunkDefault :: "Type TupleTypeElt list" where
  "exThunkDefault = [TupleTypeElt ''f'' exThunkTy False, TupleTypeElt [] IntTy False,
                     TupleTypeElt ''h'' IntTy True]"

text \<open>A tuple node whose first element is the node rejected in the example.\<close>

definition exTuplePair :: Expr where
  "exTuplePair = TupleExpr IntTy [Some exSecond, Some exThird] False"

declare ProcessNode.simps [simp del]

lemmas ex_defs = exCallee_def exArg_def exApply_def exFirst_def exInner_def exSecond_def exThird_def
  exSequence_def IntTy_def abortAtPostOrderOf_def rejectAtPreOrderOf_def

section \<open>Tuple reconciliation: the binding passes and the two modes\<close>

lemma findNamedInput_none: "(findNamedInput IL n j = - 1) = (n \<notin> set IL)"
  by (induction IL arbitrary: j) auto

lemma findNamedInput_first:
  "n \<in> set IL \<Longrightarrow>
     \<exists>k < length IL. findNamedInput IL n j = int (j + k) \<and> IL ! k = n \<and> (\<forall>k' < k. IL ! k' \<noteq> n)"
proof (induction IL arbitrary: j)
  case Nil
  then show ?case by simp
next
  case (Cons x xs)
  show ?case
  proof (cases "x = n")
    case True
    then show ?thesis by (intro exI[of _ 0]) simp
  next
    case False
    with Cons.prems have "n \<in> set xs" by simp
    from Cons.IH[OF this, of "Suc j"] obtain k where k: "k < length xs"
      "findNamedInput xs n (Suc j) = int (Suc j + k)" "xs ! k = n" "\<forall>k' < k. xs ! k' \<noteq> n"
      by blast
    have "\<forall>k' < Suc k. (x # xs) ! k' \<noteq> n"
    proof (intro allI impI)
      fix k' assume "k' < Suc k"
      then show "(x # xs) ! k' \<noteq> n" using False k(4) by (cases k') auto
    qed
    with k False show ?thesis by (intro exI[of _ "Suc k"]) simp
  qed
qed

lemma findNamedInput_range:
  "findNamedInput IL n 0 \<noteq> - 1 \<Longrightarrow> 0 \<le> findNamedInput IL n 0 \<and> nat (findNamedInput IL n 0) < length IL"
  using findNamedInput_first[of n IL 0] findNamedInput_none[of IL n 0] by auto

lemma matchNamed_step:
  "matchNamed IL (f # fs) i (srcs, used) =
     (if namedSource IL f = - 1 then matchNamed IL fs (Suc i) (srcs, used)
      else matchNamed IL fs (Suc i) (srcs[i := namedSource IL f], used[nat (namedSource IL f) := True]))"
  by (simp add: namedSource_def Let_def)

lemma matchNamed_char:
  assumes "length srcs = i + length fs"
    and "matchNamed IL fs i (srcs, used) = (srcs', used')"
  shows "length srcs' = length srcs \<and> length used' = length used
       \<and> (\<forall>k < i. srcs' ! k = srcs ! k)
       \<and> (\<forall>k < length fs. srcs' ! (i + k) =
             (if namedSource IL (fs ! k) = - 1 then srcs ! (i + k) else namedSource IL (fs ! k)))
       \<and> (\<forall>j < length used. used' ! j = (used ! j \<or> (\<exists>k < length fs. namedSource IL (fs ! k) = int j)))"
  using assms
proof (induction fs arbitrary: i srcs used)
  case Nil
  then show ?case by simp
next
  case (Cons f fs)
  define v where "v = namedSource IL f"
  define srcs1 where "srcs1 = (if v = - 1 then srcs else srcs[i := v])"
  define used1 where "used1 = (if v = - 1 then used else used[nat v := True])"
  have rec: "matchNamed IL fs (Suc i) (srcs1, used1) = (srcs', used')"
    using Cons.prems(2)
    by (auto simp add: matchNamed_step v_def srcs1_def used1_def simp del: matchNamed.simps
          split: if_splits)
  have len1: "length srcs1 = Suc i + length fs" using Cons.prems(1) by (simp add: srcs1_def)
  note IH = Cons.IH[OF len1 rec]
  have l: "length srcs' = length srcs" "length used' = length used"
    using IH by (simp_all add: srcs1_def used1_def)
  have a: "\<forall>k < i. srcs' ! k = srcs ! k"
    using IH by (auto simp: srcs1_def)
  have hd: "srcs' ! i = (if v = - 1 then srcs ! i else v)"
    using IH Cons.prems(1) by (auto simp: srcs1_def)
  have b: "\<forall>k < length (f # fs). srcs' ! (i + k) =
             (if namedSource IL ((f # fs) ! k) = - 1 then srcs ! (i + k) else namedSource IL ((f # fs) ! k))"
  proof (intro allI impI)
    fix k assume k: "k < length (f # fs)"
    show "srcs' ! (i + k) =
             (if namedSource IL ((f # fs) ! k) = - 1 then srcs ! (i + k) else namedSource IL ((f # fs) ! k))"
    proof (cases k)
      case 0
      then show ?thesis using hd by (simp add: v_def)
    next
      case (Suc k')
      with k have "k' < length fs" by simp
      with IH have "srcs' ! (Suc i + k') =
             (if namedSource IL (fs ! k') = - 1 then srcs1 ! (Suc i + k') else namedSource IL (fs ! k'))"
        by blast
      moreover have "srcs1 ! (Suc i + k') = srcs ! (Suc i + k')" by (simp add: srcs1_def)
      ultimately show ?thesis using Suc by simp
    qed
  qed
  have c: "\<forall>j < length used. used' ! j = (used ! j \<or> (\<exists>k < length (f # fs). namedSource IL ((f # fs) ! k) = int j))"
  proof (intro allI impI)
    fix j assume j: "j < length used"
    then have "j < length used1" by (simp add: used1_def)
    with IH have u: "used' ! j = (used1 ! j \<or> (\<exists>k < length fs. namedSource IL (fs ! k) = int j))"
      by blast
    have vr: "0 \<le> v" if "v \<noteq> - 1"
      using that findNamedInput_range[of IL "Name f"]
      by (auto simp: v_def namedSource_def split: if_splits)
    have u1: "used1 ! j = (used ! j \<or> v = int j)"
    proof (cases "v = - 1")
      case True
      then show ?thesis by (simp add: used1_def)
    next
      case False
      from vr[OF False] have "(nat v = j) = (v = int j)" by auto
      with False j show ?thesis by (auto simp: used1_def nth_list_update)
    qed
    have ex: "(\<exists>k < length (f # fs). namedSource IL ((f # fs) ! k) = int j)
                = (v = int j \<or> (\<exists>k < length fs. namedSource IL (fs ! k) = int j))"
      by (auto simp: v_def less_Suc_eq_0_disj)
    show "used' ! j = (used ! j \<or> (\<exists>k < length (f # fs). namedSource IL ((f # fs) ! k) = int j))"
      unfolding u u1 ex by blast
  qed
  from l a b c show ?case by blast
qed

lemma distinct_filter_map_nth:
  assumes "distinct (filter P (map g xs))" and "i < length xs" and "i' < length xs"
    and "P (g (xs ! i))" and "g (xs ! i) = g (xs ! i')"
  shows "i = i'"
  using assms
proof (induction xs arbitrary: i i')
  case Nil
  then show ?case by simp
next
  case (Cons x xs)
  show ?case
  proof (cases i)
    case 0
    show ?thesis
    proof (cases i')
      case 0
      with \<open>i = 0\<close> show ?thesis by simp
    next
      case (Suc m)
      with 0 Cons.prems have "P (g x)" "g x = g (xs ! m)" "m < length xs" by simp_all
      then have "g x \<in> set (filter P (map g xs))" using nth_mem by auto
      with Cons.prems(1) \<open>P (g x)\<close> show ?thesis by simp
    qed
  next
    case (Suc n)
    show ?thesis
    proof (cases i')
      case 0
      with Suc Cons.prems have "P (g x)" "g x = g (xs ! n)" "n < length xs" by simp_all
      then have "g x \<in> set (filter P (map g xs))" using nth_mem by auto
      with Cons.prems(1) \<open>P (g x)\<close> show ?thesis by simp
    next
      case (Suc m)
      have d: "distinct (filter P (map g xs))" using Cons.prems(1) by (simp split: if_splits)
      from Cons.IH[OF d, of n m] Cons.prems \<open>i = Suc n\<close> Suc show ?thesis by simp
    qed
  qed
qed

lemma namedSource_cases:
  "namedSource IL f =
     (if Name f \<noteq> [] \<and> Name f \<in> set IL then namedSource IL f else - 1)"
  by (simp add: namedSource_def findNamedInput_none)

lemma namedSource_first:
  assumes "Name f \<noteq> []" and "Name f \<in> set IL"
  shows "\<exists>j < length IL. namedSource IL f = int j \<and> IL ! j = Name f \<and> (\<forall>k < j. IL ! k \<noteq> Name f)"
  using findNamedInput_first[OF assms(2), of 0] assms(1) by (auto simp: namedSource_def)

text \<open>
  Claim C2, amended: when the non-empty names of the destination fields are pairwise
  distinct, then for every destination field with a non-empty name that some source
  element carries, the named pass binds the first source element that is unused (bound
  to no earlier field) and has that exact name, and marks it used; every other field
  stays unresolved (\<open>-1\<close>) for the positional pass; no source element is bound to two
  destination fields, and the used elements are exactly the bound ones.
\<close>

theorem named_pass:
  assumes "matchNamed IdentList DestFields 0
             (replicate (length DestFields) (- 1), replicate (length IdentList) False)
           = (DestElementSources, UsedElements)"
    and "distinct (filter (\<lambda>n. n \<noteq> []) (map Name DestFields))"
  shows "(\<forall>i < length DestFields.
           if Name (DestFields ! i) \<noteq> [] \<and> Name (DestFields ! i) \<in> set IdentList
           then \<exists>j < length IdentList.
                  DestElementSources ! i = int j \<and> IdentList ! j = Name (DestFields ! i)
                  \<and> (\<forall>i' < i. DestElementSources ! i' \<noteq> int j)
                  \<and> (\<forall>k < j. IdentList ! k \<noteq> Name (DestFields ! i))
                  \<and> UsedElements ! j
                  \<and> (\<forall>i' < length DestFields. DestElementSources ! i' = int j \<longrightarrow> i' = i)
           else DestElementSources ! i = - 1)
       \<and> (\<forall>j < length IdentList.
             UsedElements ! j = (\<exists>i < length DestFields. DestElementSources ! i = int j))"
proof -
  let ?n = "length DestFields"
  note d = assms(2)
  have len: "length (replicate ?n (- 1 :: int)) = 0 + ?n" by simp
  note ch = matchNamed_char[OF len assms(1)]
  have src: "DestElementSources ! i = namedSource IdentList (DestFields ! i)" if "i < ?n" for i
  proof -
    from ch that have "DestElementSources ! (0 + i) =
        (if namedSource IdentList (DestFields ! i) = - 1 then replicate ?n (- 1) ! (0 + i)
         else namedSource IdentList (DestFields ! i))" by blast
    with that show ?thesis by simp
  qed
  have used: "UsedElements ! j = (\<exists>i < ?n. DestElementSources ! i = int j)"
    if "j < length IdentList" for j
  proof -
    from ch that have "UsedElements ! j =
        (replicate (length IdentList) False ! j \<or> (\<exists>k < ?n. namedSource IdentList (DestFields ! k) = int j))"
      by simp
    with that show ?thesis by (auto simp: src)
  qed
  have main: "if Name (DestFields ! i) \<noteq> [] \<and> Name (DestFields ! i) \<in> set IdentList
           then \<exists>j < length IdentList.
                  DestElementSources ! i = int j \<and> IdentList ! j = Name (DestFields ! i)
                  \<and> (\<forall>i' < i. DestElementSources ! i' \<noteq> int j)
                  \<and> (\<forall>k < j. IdentList ! k \<noteq> Name (DestFields ! i))
                  \<and> UsedElements ! j
                  \<and> (\<forall>i' < length DestFields. DestElementSources ! i' = int j \<longrightarrow> i' = i)
           else DestElementSources ! i = - 1" if i: "i < ?n" for i
  proof (cases "Name (DestFields ! i) \<noteq> [] \<and> Name (DestFields ! i) \<in> set IdentList")
    case False
    then show ?thesis using src[OF i] namedSource_cases[of IdentList "DestFields ! i"] by auto
  next
    case True
    from namedSource_first[of "DestFields ! i" IdentList] True obtain j where j:
      "j < length IdentList" "namedSource IdentList (DestFields ! i) = int j"
      "IdentList ! j = Name (DestFields ! i)" "\<forall>k < j. IdentList ! k \<noteq> Name (DestFields ! i)"
      by blast
    have u: "UsedElements ! j" using used[OF j(1)] src[OF i] j(2) i by auto
    have inj: "i' = i" if i': "i' < ?n" and e: "DestElementSources ! i' = int j" for i'
    proof -
      from e src[OF i'] have ns: "namedSource IdentList (DestFields ! i') = int j" by simp
      then have "Name (DestFields ! i') \<noteq> [] \<and> Name (DestFields ! i') \<in> set IdentList"
        using namedSource_cases[of IdentList "DestFields ! i'"] by (auto split: if_splits)
      from namedSource_first[of "DestFields ! i'" IdentList] this obtain j' where
        "namedSource IdentList (DestFields ! i') = int j'" "IdentList ! j' = Name (DestFields ! i')"
        by blast
      with ns j(3) have "Name (DestFields ! i) = Name (DestFields ! i')" by simp
      from distinct_filter_map_nth[of "\<lambda>n. n \<noteq> []" Name DestFields i i', OF d i i' _ this] True
      show ?thesis by simp
    qed
    have unused: "DestElementSources ! i' \<noteq> int j" if "i' < i" for i'
    proof
      assume "DestElementSources ! i' = int j"
      with inj[of i'] that i show False by simp
    qed
    from True j u inj unused src[OF i] show ?thesis by auto
  qed
  from main used show ?thesis by blast
qed

text \<open>
  Claim C2 as stated fails when two destination fields share a name: the scan does not
  look at \<open>UsedElements\<close>, so both fields \<open>x\<close> are bound to source element 0, and a
  value of type \<open>(x: Int)\<close> converts to \<open>(x: Int, x: Int)\<close> with rank \<open>CR_Identity\<close>.
\<close>

theorem named_pass_counterexample:
  "matchNamed [''x''] [TupleTypeElt ''x'' IntTy False, TupleTypeElt ''x'' IntTy False] 0
       (replicate 2 (- 1), replicate 1 False)
     = ([0, 0], [True])
   \<and> getConversionRank (DeclRefExpr (TupleType [TupleTypeElt ''x'' IntTy False]) ''v'')
         (TupleType [TupleTypeElt ''x'' IntTy False, TupleTypeElt ''x'' IntTy False])
     = Inr CR_Identity"
  by code_simp

lemma scanUnnamedInput_source_form:
  "NextInputValue \<le> NumExprElements \<Longrightarrow>
     scanUnnamedInput UsedElements IdentList NumExprElements NextInputValue =
       (if NextInputValue = NumExprElements then NextInputValue
        else if \<not> UsedElements ! NextInputValue \<and> IdentList ! NextInputValue = [] then
          NextInputValue
        else scanUnnamedInput UsedElements IdentList NumExprElements (Suc NextInputValue))"
  by (subst scanUnnamedInput.simps) auto

lemma scan_bounds:
  "Next \<le> N \<Longrightarrow> Next \<le> scanUnnamedInput U IL N Next \<and> scanUnnamedInput U IL N Next \<le> N"
proof (induction U IL N Next rule: scanUnnamedInput.induct)
  case (1 U IL N Next)
  then show ?case by (subst (1 2) scanUnnamedInput.simps) auto
qed

lemma scan_free:
  "Next \<le> N \<Longrightarrow>
     unusedUnnamed IL U Next N =
       (if scanUnnamedInput U IL N Next < N
        then scanUnnamedInput U IL N Next # unusedUnnamed IL U (Suc (scanUnnamedInput U IL N Next)) N
        else [])"
proof (induction U IL N Next rule: scanUnnamedInput.induct)
  case (1 U IL N Next)
  show ?case
  proof (cases "N \<le> Next")
    case True
    then show ?thesis by (subst (1 2 3) scanUnnamedInput.simps) (simp add: unusedUnnamed_def)
  next
    case False
    then have upt: "[Next..<N] = Next # [Suc Next..<N]" by (simp add: upt_conv_Cons)
    show ?thesis
    proof (cases "\<not> U ! Next \<and> IL ! Next = []")
      case True
      with False upt show ?thesis
        by (subst (1 2 3) scanUnnamedInput.simps) (simp add: unusedUnnamed_def)
    next
      case F2: False
      have "unusedUnnamed IL U Next N = unusedUnnamed IL U (Suc Next) N"
        using F2 upt by (auto simp: unusedUnnamed_def)
      moreover have "scanUnnamedInput U IL N Next = scanUnnamedInput U IL N (Suc Next)"
        using False F2 by (subst scanUnnamedInput.simps) auto
      ultimately show ?thesis using "1.IH"[OF False F2] False by simp
    qed
  qed
qed

lemma unusedUnnamed_update:
  "k < a \<Longrightarrow> unusedUnnamed IL (U[k := True]) a N = unusedUnnamed IL U a N"
  by (auto simp: unusedUnnamed_def intro!: filter_cong)

lemma unusedUnnamed_mark:
  "k < N \<Longrightarrow> k < length U \<Longrightarrow> unusedUnnamed IL (U[k := True]) k N = unusedUnnamed IL U (Suc k) N"
proof -
  assume k: "k < N" "k < length U"
  then have "[k..<N] = k # [Suc k..<N]" by (simp add: upt_conv_Cons)
  with k show ?thesis using unusedUnnamed_update[of k "Suc k" IL U N]
    by (simp add: unusedUnnamed_def)
qed

lemma markUsed_simps [simp]:
  "markUsed [] U = U" "markUsed (j # c) U = markUsed c (U[j := True])"
  by (simp_all add: markUsed_def)

lemma markUsed_length [simp]: "length (markUsed c U) = length U"
  by (induction c arbitrary: U) auto

lemma markUsed_nth: "j < length U \<Longrightarrow> markUsed c U ! j = (U ! j \<or> j \<in> set c)"
proof (induction c arbitrary: U)
  case Nil
  then show ?case by simp
next
  case (Cons a c)
  from Cons.prems have "j < length (U[a := True])" by simp
  from Cons.IH[OF this] Cons.prems show ?case
    by (cases "j = a") (auto simp: nth_list_update)
qed

lemma matchPositional_refines:
  assumes "length used = N" and "length srcs = i + length fs" and "Next \<le> N"
  shows "matchPositional IL N fs i srcs used Next =
           map_option (\<lambda>(r, c). (take i srcs @ r, markUsed c used))
             (positionalSpec fs (drop i srcs) (unusedUnnamed IL used Next N))"
  using assms
proof (induction fs arbitrary: i srcs used Next)
  case Nil
  then show ?case by simp
next
  case (Cons f fs)
  from Cons.prems(2) have i: "i < length srcs" by simp
  then have dr: "drop i srcs = srcs ! i # drop (Suc i) srcs" by (simp add: Cons_nth_drop_Suc)
  have tk: "take (Suc i) srcs = take i srcs @ [srcs ! i]" using i by (simp add: take_Suc_conv_app_nth)
  have len: "length srcs = Suc i + length fs" using Cons.prems(2) by simp
  show ?case
  proof (cases "srcs ! i \<noteq> - 1")
    case True
    then have st: "positionalStep IL N f i srcs used Next = Some (srcs, used, Next)"
      by (simp add: positionalStep_def)
    show ?thesis
      using Cons.IH[OF Cons.prems(1) len Cons.prems(3)] True
      by (simp add: st dr tk option.map_comp comp_def case_prod_unfold)
  next
    case unres: False
    define Next' where "Next' = scanUnnamedInput used IL N Next"
    from scan_bounds[OF Cons.prems(3), of used IL] have nb: "Next \<le> Next'" "Next' \<le> N"
      by (simp_all add: Next'_def)
    note fr = scan_free[OF Cons.prems(3), of IL used, folded Next'_def]
    show ?thesis
    proof (cases "Next' = N")
      case True
      then have fre: "unusedUnnamed IL used Next N = []" using fr by simp
      have fre': "unusedUnnamed IL used N N = []" by (simp add: unusedUnnamed_def)
      show ?thesis
      proof (cases "Init f")
        case False
        with unres True show ?thesis
          by (simp add: positionalStep_def Let_def Next'_def[symmetric] dr fre)
      next
        case I: True
        have st: "positionalStep IL N f i srcs used Next = Some (srcs[i := - 2], used, N)"
          using unres True I by (simp add: positionalStep_def Let_def Next'_def[symmetric])
        have len2: "length (srcs[i := - 2]) = Suc i + length fs" using len by simp
        have tk2: "take (Suc i) (srcs[i := - 2]) = take i srcs @ [- 2]"
          using i by (simp add: take_Suc_conv_app_nth)
        show ?thesis
          using Cons.IH[OF Cons.prems(1) len2, of N] unres I
          by (simp add: st dr fre fre' tk2 option.map_comp comp_def case_prod_unfold)
      qed
    next
      case False
      with nb have lt: "Next' < N" by simp
      have st: "positionalStep IL N f i srcs used Next
                  = Some (srcs[i := int Next'], used[Next' := True], Next')"
        using unres False by (simp add: positionalStep_def Let_def Next'_def[symmetric])
      have fre: "unusedUnnamed IL used Next N = Next' # unusedUnnamed IL used (Suc Next') N"
        using fr lt by simp
      have fre': "unusedUnnamed IL (used[Next' := True]) Next' N = unusedUnnamed IL used (Suc Next') N"
        using lt Cons.prems(1) by (simp add: unusedUnnamed_mark)
      have len2: "length (srcs[i := int Next']) = Suc i + length fs" using len by simp
      have lu: "length (used[Next' := True]) = N" using Cons.prems(1) by simp
      have tk2: "take (Suc i) (srcs[i := int Next']) = take i srcs @ [int Next']"
        using i by (simp add: take_Suc_conv_app_nth)
      show ?thesis
        using Cons.IH[OF lu len2 nb(2)] unres
        by (simp add: st dr fre fre' tk2 option.map_comp comp_def case_prod_unfold)
    qed
  qed
qed

lemma unresolvedBefore_0 [simp]: "unresolvedBefore ss 0 = 0"
  by (simp add: unresolvedBefore_def)

lemma unresolvedBefore_Cons [simp]:
  "unresolvedBefore (s # ss) (Suc k) = (if s = - 1 then Suc (unresolvedBefore ss k) else unresolvedBefore ss k)"
  by (simp add: unresolvedBefore_def)


lemma positionalSpec_Some:
  "length ss = length fs \<Longrightarrow> positionalSpec fs ss free = Some (r, c) \<Longrightarrow>
     length r = length ss
     \<and> (\<forall>k < length ss. r ! k =
           (if ss ! k \<noteq> - 1 then ss ! k
            else if unresolvedBefore ss k < length free then int (free ! unresolvedBefore ss k)
            else - 2))
     \<and> c = take (unresolvedBefore ss (length ss)) free
     \<and> (\<forall>j \<in> set c. \<exists>k < length ss. r ! k = int j)"
proof (induction fs ss free arbitrary: r c rule: positionalSpec.induct)
  case (1 ss free)
  then show ?case by simp
next
  case (2 f fs free)
  then show ?case by simp
next
  case (3 f fs s ss free)
  from "3.prems" have len: "length ss = length fs" by simp
  show ?case
  proof (cases "s \<noteq> - 1")
    case True
    with "3.prems"(2) obtain r' where r': "positionalSpec fs ss free = Some (r', c)" "r = s # r'"
      by auto
    from "3.IH"(1)[OF True len r'(1)] True r'(2) show ?thesis
      by (auto simp: All_less_Suc2 Ex_less_Suc2)
  next
    case unres: False
    show ?thesis
    proof (cases free)
      case Nil
      with "3.prems"(2) unres obtain r' where r': "Init f" "positionalSpec fs ss [] = Some (r', c)"
        "r = - 2 # r'"
        by (auto split: if_splits)
      from "3.IH"(2)[OF unres Nil _ len r'(2)] r'(1) unres r'(3) Nil show ?thesis
        by (auto simp: All_less_Suc2 Ex_less_Suc2)
    next
      case (Cons j free')
      with "3.prems"(2) unres obtain r' c' where r': "positionalSpec fs ss free' = Some (r', c')"
        "r = int j # r'" "c = j # c'"
        by auto
      from "3.IH"(3)[OF unres Cons len r'(1)] unres r'(2,3) Cons show ?thesis
        by (auto simp: All_less_Suc2 Ex_less_Suc2)
    qed
  qed
qed

lemma matchPositional_spec:
  assumes "length used = N" and "length srcs = length fs"
  shows "matchPositional IL N fs 0 srcs used 0 =
           map_option (\<lambda>(r, c). (r, markUsed c used))
             (positionalSpec fs srcs (unusedUnnamed IL used 0 N))"
  using matchPositional_refines[of used N srcs 0 fs 0 IL] assms by simp


lemma unusedUnnamed_lt: "j \<in> set (unusedUnnamed IL U a N) \<Longrightarrow> j < N"
  by (simp add: unusedUnnamed_def)

lemma namedSource_range:
  "namedSource IL f \<noteq> - 1 \<Longrightarrow> 0 \<le> namedSource IL f \<and> namedSource IL f < int (length IL)"
  using findNamedInput_range[of IL "Name f"] by (auto simp: namedSource_def split: if_splits)

lemma reconcile_sound:
  assumes r: "reconcile ETy N fs = Some srcs"
    and a: "case ETy of Some EFields \<Rightarrow> length EFields = N | None \<Rightarrow> True"
  shows "length srcs = length fs
       \<and> (\<forall>i < length fs. srcs ! i = - 2 \<or> (0 \<le> srcs ! i \<and> srcs ! i < int N))
       \<and> (\<forall>j < N. \<exists>i < length fs. srcs ! i = int j)"
proof -
  define IL where "IL = identListOf ETy N"
  have lenIL: "length IL = N" using a by (auto simp: IL_def identListOf_def split: option.splits)
  define st0 where "st0 = (replicate (length fs) (- 1 :: int), replicate N False)"
  define st1 where "st1 = (case ETy of None \<Rightarrow> st0 | Some EFields \<Rightarrow> matchNamed IL fs 0 st0)"
  obtain s1 u1 where st1: "st1 = (s1, u1)" by (cases st1)
  have p1: "length s1 = length fs \<and> length u1 = N
          \<and> (\<forall>i < length fs. s1 ! i = - 1 \<or> (0 \<le> s1 ! i \<and> s1 ! i < int N))
          \<and> (\<forall>j < N. u1 ! j \<longrightarrow> (\<exists>i < length fs. s1 ! i = int j))"
  proof (cases ETy)
    case None
    with st1 show ?thesis by (auto simp: st1_def st0_def)
  next
    case (Some EFields)
    with st1 have m: "matchNamed IL fs 0 (replicate (length fs) (- 1), replicate N False) = (s1, u1)"
      by (simp add: st1_def st0_def)
    have len: "length (replicate (length fs) (- 1 :: int)) = 0 + length fs" by simp
    note ch = matchNamed_char[OF len m]
    have src: "s1 ! i = namedSource IL (fs ! i)" if "i < length fs" for i
    proof -
      from ch that have "s1 ! (0 + i) =
        (if namedSource IL (fs ! i) = - 1 then replicate (length fs) (- 1) ! (0 + i)
         else namedSource IL (fs ! i))" by blast
      with that show ?thesis by simp
    qed
    have rng: "s1 ! i = - 1 \<or> (0 \<le> s1 ! i \<and> s1 ! i < int N)" if "i < length fs" for i
      using src[OF that] namedSource_range[of IL "fs ! i"] lenIL by auto
    have usd: "\<exists>i < length fs. s1 ! i = int j" if "j < N" "u1 ! j" for j
    proof -
      from ch that have "u1 ! j = (replicate N False ! j \<or> (\<exists>k < length fs. namedSource IL (fs ! k) = int j))"
        by simp
      with that show ?thesis by (auto simp: src)
    qed
    from ch rng usd show ?thesis by auto
  qed
  from r obtain used' where m: "matchPositional IL N fs 0 s1 u1 0 = Some (srcs, used')"
    and all: "\<not> list_ex Not used'"
    by (auto simp: reconcile_def Let_def IL_def[symmetric] st0_def[symmetric] st1_def[symmetric] st1
          split: option.splits if_splits)
  from p1 have l1: "length u1 = N" "length s1 = length fs" by simp_all
  let ?free = "unusedUnnamed IL u1 0 N"
  from m[unfolded matchPositional_spec[OF l1, of IL]] obtain c where
    c: "positionalSpec fs s1 ?free = Some (srcs, c)" "used' = markUsed c u1"
    by auto
  note ps = positionalSpec_Some[OF l1(2) c(1)]
  have len: "length srcs = length fs" using ps l1 by simp
  have val: "srcs ! i = (if s1 ! i \<noteq> - 1 then s1 ! i
                         else if unresolvedBefore s1 i < length ?free
                         then int (?free ! unresolvedBefore s1 i) else - 2)"
    if "i < length fs" for i
    using ps that l1 by simp
  have rng: "srcs ! i = - 2 \<or> (0 \<le> srcs ! i \<and> srcs ! i < int N)" if i: "i < length fs" for i
  proof (cases "s1 ! i \<noteq> - 1")
    case True
    with val[OF i] p1 i show ?thesis by auto
  next
    case False
    show ?thesis
    proof (cases "unresolvedBefore s1 i < length ?free")
      case True
      then have "?free ! unresolvedBefore s1 i \<in> set ?free" by simp
      from unusedUnnamed_lt[OF this] val[OF i] False True show ?thesis by simp
    next
      case F: False
      with val[OF i] False show ?thesis by simp
    qed
  qed
  have cov: "\<exists>i < length fs. srcs ! i = int j" if j: "j < N" for j
  proof -
    from all have "\<forall>u \<in> set used'. u" by (simp add: list_ex_iff)
    moreover have "length used' = N" using c(2) l1 by simp
    ultimately have "used' ! j" using j by (metis nth_mem)
    with c(2) j l1 have "u1 ! j \<or> j \<in> set c" by (simp add: markUsed_nth)
    then show ?thesis
    proof
      assume "u1 ! j"
      with p1 j obtain i where i: "i < length fs" "s1 ! i = int j" by blast
      with val[OF i(1)] show ?thesis by auto
    next
      assume "j \<in> set c"
      with ps l1 show ?thesis by auto
    qed
  qed
  from len rng cov show ?thesis by blast
qed

text \<open>
  Claim C4: whenever the tuple reconciliation returns a rank other than \<open>CR_Invalid\<close>,
  the binding passes succeeded with every source element bound to some destination
  field and every destination field bound to a source element or to its default.
\<close>

theorem reconcile_exhaustive:
  assumes "getTupleToTupleTypeConversionRank E N DestFields = Inr Rank"
    and "Rank \<noteq> CR_Invalid"
  shows "\<exists>srcs. reconcile (getAsTupleType (Ty E)) N DestFields = Some srcs
           \<and> length srcs = length DestFields
           \<and> (\<forall>j < N. \<exists>i < length DestFields. srcs ! i = int j)
           \<and> (\<forall>i < length DestFields. srcs ! i = - 2 \<or> (0 \<le> srcs ! i \<and> srcs ! i < int N))"
proof -
  from assms have a: "case getAsTupleType (Ty E) of Some EFields \<Rightarrow> length EFields = N | None \<Rightarrow> True"
    by (auto simp: getTupleToTupleTypeConversionRank.simps Let_def split: option.splits if_splits)
  from assms obtain srcs where r: "reconcile (getAsTupleType (Ty E)) N DestFields = Some srcs"
    by (auto simp: getTupleToTupleTypeConversionRank.simps Let_def split: option.splits if_splits)
  from reconcile_sound[OF r a] r show ?thesis by blast
qed

text \<open>
  The literal \<open>(y: 4, x: 3)\<close> against \<open>(x: Int, y: Int)\<close>: field \<open>x\<close> is bound to
  source element 1 and field \<open>y\<close> to source element 0.
\<close>

theorem named_pass_witness:
  "matchNamed [''y'', ''x''] exXY 0 (replicate (length exXY) (- 1), replicate (length [''y'', ''x'']) False)
     = ([1, 0], [True, True])
   \<and> distinct (filter (\<lambda>n. n \<noteq> []) (map Name exXY))
   \<and> reconcile (getAsTupleType exSwizzleTy) 2 exXY = Some [1, 0]
   \<and> getConversionRank exSwizzle (TupleType exXY) = Inr CR_Identity"
proof -
  have h: "matchNamed [''y'', ''x''] exXY 0
             (replicate (length exXY) (- 1), replicate (length [''y'', ''x'']) False)
           = ([1, 0], [True, True])"
    by code_simp
  have d: "distinct (filter (\<lambda>n. n \<noteq> []) (map Name exXY))"
    by (simp add: exXY_def)
  have r: "reconcile (getAsTupleType exSwizzleTy) 2 exXY = Some [1, 0]"
    by code_simp
  have g: "getConversionRank exSwizzle (TupleType exXY) = Inr CR_Identity"
    by code_simp
  from named_pass[OF h d] h d r g show ?thesis by simp
qed


text \<open>
  The permutation \<open>(y: 4, x: 3)\<close> to \<open>(x: Int, y: Int)\<close> succeeds with both elements
  consumed; destination \<open>(Int)\<close> with the source literal \<open>(1, 2)\<close> is \<open>CR_Invalid\<close>.
\<close>

theorem reconcile_exhaustive_witness:
  "getTupleToTupleTypeConversionRank exSwizzle 2 exXY = Inr CR_Identity
   \<and> CR_Identity \<noteq> CR_Invalid
   \<and> reconcile (getAsTupleType (Ty exSwizzle)) 2 exXY = Some [1, 0]
   \<and> getConversionRank exPair (TupleType [TupleTypeElt [] IntTy False]) = Inr CR_Invalid"
proof -
  have h1: "getTupleToTupleTypeConversionRank exSwizzle 2 exXY = Inr CR_Identity"
    by code_simp
  have h2: "CR_Identity \<noteq> CR_Invalid" by simp
  have r: "reconcile (getAsTupleType (Ty exSwizzle)) 2 exXY = Some [1, 0]"
    by code_simp
  have g: "getConversionRank exPair (TupleType [TupleTypeElt [] IntTy False]) = Inr CR_Invalid"
    by code_simp
  from reconcile_exhaustive[OF h1 h2] h1 h2 r g show ?thesis by simp
qed

lemma structuralRank_char:
  assumes "\<forall>k < length fs. srcs ! (i + k) = - 2
             \<or> (0 \<le> srcs ! (i + k) \<and> nat (srcs ! (i + k)) < length EFields)"
  shows "structuralRank (Some EFields) srcs i fs =
           Inr (if \<forall>k < length fs. srcs ! (i + k) \<noteq> - 2 \<longrightarrow>
                     getCanonicalType (EltTy (EFields ! nat (srcs ! (i + k))))
                       = getCanonicalType (EltTy (fs ! k))
                then CR_Identity else CR_Invalid)"
  using assms
proof (induction fs arbitrary: i)
  case Nil
  then show ?case by simp
next
  case (Cons f fs)
  from Cons.prems have hd: "srcs ! i = - 2 \<or> (0 \<le> srcs ! i \<and> nat (srcs ! i) < length EFields)"
    and tl: "\<forall>k < length fs. srcs ! (Suc i + k) = - 2
             \<or> (0 \<le> srcs ! (Suc i + k) \<and> nat (srcs ! (Suc i + k)) < length EFields)"
    by (auto simp: All_less_Suc2)
  from hd have n1: "srcs ! i \<noteq> - 1" by auto
  show ?case
    using Cons.IH[OF tl] hd n1 by (auto simp: All_less_Suc2 Let_def)
qed

text \<open>
  Claim C5: when the source expression has a tuple type and is not converted in place
  (it is no tuple node, or its element count is 1 or differs from the number of
  destination fields), a successful binding yields \<open>CR_Identity\<close> if every field bound
  to a source element has exactly that element's canonical type, and \<open>CR_Invalid\<close>
  otherwise; no rank of an element conversion enters the result.
\<close>

theorem structural_mode:
  assumes "getAsTupleType (Ty E) = Some EFields" and "length EFields = N"
    and "case dynCastTupleExpr E of
           Some (SubExprs, flag) \<Rightarrow> length SubExprs = 1 \<or> length SubExprs \<noteq> length DestFields
         | None \<Rightarrow> True"
    and "reconcile (Some EFields) N DestFields = Some srcs"
  shows "getTupleToTupleTypeConversionRank E N DestFields =
           Inr (if \<forall>i < length DestFields. srcs ! i \<noteq> - 2 \<longrightarrow>
                     getCanonicalType (EltTy (EFields ! nat (srcs ! i)))
                       = getCanonicalType (EltTy (DestFields ! i))
                then CR_Identity else CR_Invalid)"
proof -
  have a: "case Some EFields of Some EFields \<Rightarrow> length EFields = N | None \<Rightarrow> True"
    using assms(2) by simp
  from reconcile_sound[OF assms(4) a] assms(2)
  have rng: "\<forall>k < length DestFields. srcs ! (0 + k) = - 2
             \<or> (0 \<le> srcs ! (0 + k) \<and> nat (srcs ! (0 + k)) < length EFields)"
    by auto
  have "getTupleToTupleTypeConversionRank E N DestFields
          = structuralRank (Some EFields) srcs 0 DestFields"
    using assms by (auto simp: getTupleToTupleTypeConversionRank.simps split: option.splits)
  with structuralRank_char[OF rng] show ?thesis by simp
qed

lemma rankOrd_maxRank: "rankOrd (maxRank a b) = max (rankOrd a) (rankOrd b)"
  by (simp add: maxRank_def max_def)

lemma rankOrd_foldl:
  "rankOrd (foldl maxRank a rs) = Max (insert (rankOrd a) (rankOrd ` set rs))"
proof (induction rs arbitrary: a)
  case Nil
  then show ?case by simp
next
  case (Cons r rs)
  have "Max (insert (max (rankOrd a) (rankOrd r)) (rankOrd ` set rs))
          = Max (insert (rankOrd a) (insert (rankOrd r) (rankOrd ` set rs)))"
    by (cases "set rs = {}") (simp_all add: max.assoc)
  with Cons[of "maxRank a r"] show ?case by (simp add: rankOrd_maxRank)
qed

lemma literalRank_char:
  assumes "\<forall>k < length fs. srcs ! (i + k) \<noteq> - 1
             \<and> (srcs ! (i + k) \<noteq> - 2 \<longrightarrow>
                  nat (srcs ! (i + k)) < length SubExprs
                  \<and> (\<exists>Elt. SubExprs ! nat (srcs ! (i + k)) = Some Elt
                        \<and> getConversionRank Elt (EltTy (fs ! k)) = Inr (ranks (i + k))))"
  shows "literalRank SubExprs srcs i fs CurRank =
           Inr (foldl maxRank CurRank
                  (map ranks (filter (\<lambda>m. srcs ! m \<noteq> - 2) [i..<i + length fs])))"
  using assms
proof (induction fs arbitrary: i CurRank)
  case Nil
  then show ?case by simp
next
  case (Cons f fs)
  from Cons.prems have hd: "srcs ! i \<noteq> - 1"
    "srcs ! i \<noteq> - 2 \<longrightarrow> nat (srcs ! i) < length SubExprs
        \<and> (\<exists>Elt. SubExprs ! nat (srcs ! i) = Some Elt
              \<and> getConversionRank Elt (EltTy f) = Inr (ranks i))"
    and tl: "\<forall>k < length fs. srcs ! (Suc i + k) \<noteq> - 1
             \<and> (srcs ! (Suc i + k) \<noteq> - 2 \<longrightarrow>
                  nat (srcs ! (Suc i + k)) < length SubExprs
                  \<and> (\<exists>Elt. SubExprs ! nat (srcs ! (Suc i + k)) = Some Elt
                        \<and> getConversionRank Elt (EltTy (fs ! k)) = Inr (ranks (Suc i + k))))"
    by (auto simp: All_less_Suc2)
  have upt: "[i..<i + length (f # fs)] = i # [Suc i..<Suc i + length fs]"
    by (simp add: upt_conv_Cons del: upt_Suc)
  show ?case
    using Cons.IH[OF tl] hd unfolding upt by (auto simp: Let_def)
qed

lemma getAsTupleType_facts:
  assumes "getAsTupleType D = Some fs"
  shows "\<not> isDependentType D"
  using assms by (auto simp: isDependentType_def getAsTupleType_def split: Type.splits)

text \<open>
  Claim C1, amended: for a tuple node whose element count is not 1 and equals the
  number of destination fields, converted to a tuple destination type of a different
  canonical type, the rank is \<open>CR_Invalid\<close> when the binding passes fail, and otherwise
  the maximum of the ranks of the bound elements against their fields' types, fields
  bound to their default being skipped, and \<open>CR_Identity\<close> when no rank was computed.
\<close>

theorem literal_mode:
  assumes "getAsTupleType DestTy = Some DestFields"
    and "getCanonicalType (Ty E) \<noteq> getCanonicalType DestTy"
    and "dynCastTupleExpr E = Some (SubExprs, flag)"
    and "length SubExprs \<noteq> 1" and "length SubExprs = length DestFields"
    and "case getAsTupleType (Ty E) of
           Some EFields \<Rightarrow> length EFields = length SubExprs | None \<Rightarrow> True"
  shows "(reconcile (getAsTupleType (Ty E)) (length SubExprs) DestFields = None \<longrightarrow>
            getConversionRank E DestTy = Inr CR_Invalid)
       \<and> (\<forall>srcs ranks.
             reconcile (getAsTupleType (Ty E)) (length SubExprs) DestFields = Some srcs
             \<and> (\<forall>i < length DestFields. srcs ! i \<noteq> - 2 \<longrightarrow>
                    (\<exists>Elt. SubExprs ! nat (srcs ! i) = Some Elt
                       \<and> getConversionRank Elt (EltTy (DestFields ! i)) = Inr (ranks i)))
             \<longrightarrow> getConversionRank E DestTy =
                   Inr (foldl maxRank CR_Identity
                          (map ranks (filter (\<lambda>i. srcs ! i \<noteq> - 2) [0..<length DestFields])))
                 \<and> rankOrd (foldl maxRank CR_Identity
                          (map ranks (filter (\<lambda>i. srcs ! i \<noteq> - 2) [0..<length DestFields])))
                     = Max (insert 0 (rankOrd ` ranks `
                              {i. i < length DestFields \<and> srcs ! i \<noteq> - 2})))"
proof -
  have gp: "groupingParenSubExpr E = None"
    using assms(3,4) by (simp add: groupingParenSubExpr_def isGroupingParen_def)
  have top: "getConversionRank E DestTy
               = getTupleToTupleTypeConversionRank E (length SubExprs) DestFields"
    using assms(1,2,3) gp getAsTupleType_facts[OF assms(1)]
    by (subst getConversionRank.simps) simp
  have none: "getConversionRank E DestTy = Inr CR_Invalid"
    if "reconcile (getAsTupleType (Ty E)) (length SubExprs) DestFields = None"
    using that assms(6) unfolding top
    by (auto simp: getTupleToTupleTypeConversionRank.simps split: option.splits)
  have some: "getConversionRank E DestTy =
                   Inr (foldl maxRank CR_Identity
                          (map ranks (filter (\<lambda>i. srcs ! i \<noteq> - 2) [0..<length DestFields])))
                 \<and> rankOrd (foldl maxRank CR_Identity
                          (map ranks (filter (\<lambda>i. srcs ! i \<noteq> - 2) [0..<length DestFields])))
                     = Max (insert 0 (rankOrd ` ranks `
                              {i. i < length DestFields \<and> srcs ! i \<noteq> - 2}))"
    if r: "reconcile (getAsTupleType (Ty E)) (length SubExprs) DestFields = Some srcs"
      and e: "\<forall>i < length DestFields. srcs ! i \<noteq> - 2 \<longrightarrow>
                    (\<exists>Elt. SubExprs ! nat (srcs ! i) = Some Elt
                       \<and> getConversionRank Elt (EltTy (DestFields ! i)) = Inr (ranks i))"
    for srcs ranks
  proof -
    note snd = reconcile_sound[OF r assms(6)]
    have pre: "\<forall>k < length DestFields. srcs ! (0 + k) \<noteq> - 1
             \<and> (srcs ! (0 + k) \<noteq> - 2 \<longrightarrow>
                  nat (srcs ! (0 + k)) < length SubExprs
                  \<and> (\<exists>Elt. SubExprs ! nat (srcs ! (0 + k)) = Some Elt
                        \<and> getConversionRank Elt (EltTy (DestFields ! k)) = Inr (ranks (0 + k))))"
      using snd e by fastforce
    have "getTupleToTupleTypeConversionRank E (length SubExprs) DestFields
            = literalRank SubExprs srcs 0 DestFields CR_Identity"
      using r assms(3,4,5,6)
      by (auto simp: getTupleToTupleTypeConversionRank.simps split: option.splits)
    with literalRank_char[OF pre, of CR_Identity] top
    have g: "getConversionRank E DestTy =
                   Inr (foldl maxRank CR_Identity
                          (map ranks (filter (\<lambda>i. srcs ! i \<noteq> - 2) [0..<length DestFields])))"
      by simp
    have "set (filter (\<lambda>i. srcs ! i \<noteq> - 2) [0..<length DestFields])
            = {i. i < length DestFields \<and> srcs ! i \<noteq> - 2}"
      by auto
    then have m: "rankOrd (foldl maxRank CR_Identity
                          (map ranks (filter (\<lambda>i. srcs ! i \<noteq> - 2) [0..<length DestFields])))
                     = Max (insert 0 (rankOrd ` ranks `
                              {i. i < length DestFields \<and> srcs ! i \<noteq> - 2}))"
      by (simp add: rankOrd_foldl)
    from g m show ?thesis by blast
  qed
  from none some show ?thesis by blast
qed

text \<open>
  A reference of type \<open>(y: Int, x: Int)\<close> against \<open>(x: Int, y: Int)\<close> is a pure
  permutation; against \<open>(x: () -> Int, y: Int)\<close> it is \<open>CR_Invalid\<close>, since no closure
  promotion of an element is tried.
\<close>

theorem structural_mode_witness:
  "getAsTupleType (Ty exSwizzleRef) = Some [TupleTypeElt ''y'' IntTy False, TupleTypeElt ''x'' IntTy False]
   \<and> length [TupleTypeElt ''y'' IntTy False, TupleTypeElt ''x'' IntTy False] = 2
   \<and> dynCastTupleExpr exSwizzleRef = None
   \<and> reconcile (Some [TupleTypeElt ''y'' IntTy False, TupleTypeElt ''x'' IntTy False]) 2 exXY
       = Some [1, 0]
   \<and> getTupleToTupleTypeConversionRank exSwizzleRef 2 exXY = Inr CR_Identity
   \<and> getConversionRank exSwizzleRef
        (TupleType [TupleTypeElt ''x'' exThunkTy False, TupleTypeElt ''y'' IntTy False])
       = Inr CR_Invalid"
proof -
  have h1: "getAsTupleType (Ty exSwizzleRef)
              = Some [TupleTypeElt ''y'' IntTy False, TupleTypeElt ''x'' IntTy False]"
    by (simp add: exSwizzleRef_def exSwizzleTy_def getAsTupleType_def)
  have h2: "length [TupleTypeElt ''y'' IntTy False, TupleTypeElt ''x'' IntTy False] = 2"
    by simp
  have d: "dynCastTupleExpr exSwizzleRef = None"
    by (simp add: exSwizzleRef_def)
  then have h3: "case dynCastTupleExpr exSwizzleRef of
           Some (SubExprs, flag) \<Rightarrow> length SubExprs = 1 \<or> length SubExprs \<noteq> length exXY
         | None \<Rightarrow> True"
    by simp
  have h4: "reconcile (Some [TupleTypeElt ''y'' IntTy False, TupleTypeElt ''x'' IntTy False]) 2 exXY
              = Some [1, 0]"
    by code_simp
  have c: "(\<forall>i < length exXY. [1, 0 :: int] ! i \<noteq> - 2 \<longrightarrow>
              getCanonicalType (EltTy ([TupleTypeElt ''y'' IntTy False, TupleTypeElt ''x'' IntTy False]
                                        ! nat ([1, 0] ! i)))
                = getCanonicalType (EltTy (exXY ! i)))"
    by (simp add: exXY_def All_less_Suc2)
  have g: "getConversionRank exSwizzleRef
        (TupleType [TupleTypeElt ''x'' exThunkTy False, TupleTypeElt ''y'' IntTy False])
       = Inr CR_Invalid"
    by code_simp
  from structural_mode[OF h1 h2 h3 h4] c have
    "getTupleToTupleTypeConversionRank exSwizzleRef 2 exXY = Inr CR_Identity"
    by simp
  with h1 h2 d h4 g show ?thesis by simp
qed

text \<open>
  Claim C1 as stated fails for a tuple node with fewer elements than the destination has
  fields: the literal \<open>(1, 2)\<close> against \<open>(f: () -> Int, Int, h: Int = default)\<close> binds
  as \<open>[0, 1, -2]\<close>, the element ranks would give \<open>CR_AutoClosure\<close>, but the source
  compares types exactly and returns \<open>CR_Invalid\<close>.
\<close>

theorem literal_mode_counterexample:
  "reconcile (getAsTupleType (Ty exPair)) 2 exThunkDefault = Some [0, 1, - 2]
   \<and> literalRank [Some (IntegerLiteral IntTy ''1''), Some (IntegerLiteral IntTy ''2'')]
        [0, 1, - 2] 0 exThunkDefault CR_Identity = Inr CR_AutoClosure
   \<and> getConversionRank exPair (TupleType exThunkDefault) = Inr CR_Invalid"
  by code_simp

text \<open>
  The literal \<open>(1, 2)\<close> against \<open>(f: () -> Int, Int)\<close>: the first element needs closure
  promotion, so the rank of the tuple is \<open>CR_AutoClosure\<close>.
\<close>

theorem literal_mode_witness:
  "getAsTupleType (TupleType exThunkPair) = Some exThunkPair
   \<and> getCanonicalType (Ty exPair) \<noteq> getCanonicalType (TupleType exThunkPair)
   \<and> dynCastTupleExpr exPair
       = Some ([Some (IntegerLiteral IntTy ''1''), Some (IntegerLiteral IntTy ''2'')], False)
   \<and> length [Some (IntegerLiteral IntTy ''1''), Some (IntegerLiteral IntTy ''2'')] \<noteq> 1
   \<and> length [Some (IntegerLiteral IntTy ''1''), Some (IntegerLiteral IntTy ''2'')]
       = length exThunkPair
   \<and> reconcile (getAsTupleType (Ty exPair)) 2 exThunkPair = Some [0, 1]
   \<and> getConversionRank (IntegerLiteral IntTy ''1'') exThunkTy = Inr CR_AutoClosure
   \<and> getConversionRank (IntegerLiteral IntTy ''2'') IntTy = Inr CR_Identity
   \<and> getConversionRank exPair (TupleType exThunkPair) = Inr CR_AutoClosure"
proof -
  let ?subs = "[Some (IntegerLiteral IntTy ''1''), Some (IntegerLiteral IntTy ''2'')]"
  let ?ranks = "\<lambda>i::nat. if i = 0 then CR_AutoClosure else CR_Identity"
  have h1: "getAsTupleType (TupleType exThunkPair) = Some exThunkPair"
    by (simp add: getAsTupleType_def)
  have h2: "getCanonicalType (Ty exPair) \<noteq> getCanonicalType (TupleType exThunkPair)"
    by (simp add: exPair_def exPairTy_def exThunkPair_def exThunkTy_def IntTy_def)
  have h3: "dynCastTupleExpr exPair = Some (?subs, False)"
    by (simp add: exPair_def)
  have h4: "length ?subs \<noteq> 1" by simp
  have h5: "length ?subs = length exThunkPair" by (simp add: exThunkPair_def)
  have h6: "case getAsTupleType (Ty exPair) of
              Some EFields \<Rightarrow> length EFields = length ?subs | None \<Rightarrow> True"
    by (simp add: exPair_def exPairTy_def getAsTupleType_def)
  have r: "reconcile (getAsTupleType (Ty exPair)) (length ?subs) exThunkPair = Some [0, 1]"
    by code_simp
  have e1: "getConversionRank (IntegerLiteral IntTy ''1'') exThunkTy = Inr CR_AutoClosure"
    by code_simp
  have e2: "getConversionRank (IntegerLiteral IntTy ''2'') IntTy = Inr CR_Identity"
    by code_simp
  have e: "\<forall>i < length exThunkPair. [0, 1 :: int] ! i \<noteq> - 2 \<longrightarrow>
             (\<exists>Elt. ?subs ! nat ([0, 1] ! i) = Some Elt
                \<and> getConversionRank Elt (EltTy (exThunkPair ! i)) = Inr (?ranks i))"
    using e1 e2 by (simp add: exThunkPair_def All_less_Suc2)
  note t = literal_mode[OF h1 h2 h3 h4 h5 h6, THEN conjunct2,
               THEN spec[where x = "[0, 1]"],
               THEN spec[where x = "\<lambda>i::nat. if i = 0 then CR_AutoClosure else CR_Identity"]]
  from t r e
  have "getConversionRank exPair (TupleType exThunkPair) =
          Inr (foldl maxRank CR_Identity
                 (map ?ranks (filter (\<lambda>i. [0, 1 :: int] ! i \<noteq> - 2) [0..<length exThunkPair])))"
    by simp
  then have g: "getConversionRank exPair (TupleType exThunkPair) = Inr CR_AutoClosure"
    by (simp add: exThunkPair_def maxRank_def)
  have r2: "reconcile (getAsTupleType (Ty exPair)) 2 exThunkPair = Some [0, 1]"
    using r by (simp add: numeral_2_eq_2)
  from h1 h2 h3 h4 h5 r2 e1 e2 g show ?thesis by blast
qed

section \<open>Conversion ranks: identity and closure promotion\<close>

lemma getAsFunctionType_facts:
  assumes "getAsFunctionType F = Some (FTInput, FTResult)"
  shows "\<not> isDependentType F" and "getAsTupleType F = None"
  using assms
  by (auto simp: getAsFunctionType_def isDependentType_def getAsTupleType_def split: Type.splits)

text \<open>
  Claim C6 as stated fails for an expression whose type is still dependent: converting an
  unresolved reference to its own type trips the assertion at the head of
  \<open>getConversionRank\<close>.
\<close>

theorem identity_rank_counterexample:
  "getConversionRank (UnresolvedDeclRefExpr DependentType ''x'') (Ty (UnresolvedDeclRefExpr DependentType ''x''))
     = Inl AssertionFailure"
  by (simp add: getConversionRank.simps isDependentType_def)

text \<open>
  Claim C6, amended: for every expression whose type is canonically equal to a
  destination type that is not dependent, the conversion rank is \<open>CR_Identity\<close>; with
  \<open>DestTy = Ty E\<close> this is the rank of an expression against its own type.
\<close>

theorem identity_rank:
  assumes "\<not> isDependentType DestTy"
    and "getCanonicalType (Ty E) = getCanonicalType DestTy"
  shows "getConversionRank E DestTy = Inr CR_Identity"
  using assms by (simp add: getConversionRank.simps)

text \<open>
  An integer literal of type \<open>Int\<close> against an alias of \<open>Int\<close>.
\<close>

theorem identity_rank_witness:
  "\<not> isDependentType (NameAliasType ''MyInt'' IntTy)
   \<and> getCanonicalType (Ty (IntegerLiteral IntTy ''1'')) = getCanonicalType (NameAliasType ''MyInt'' IntTy)
   \<and> getConversionRank (IntegerLiteral IntTy ''1'') (NameAliasType ''MyInt'' IntTy) = Inr CR_Identity"
proof -
  have h1: "\<not> isDependentType (NameAliasType ''MyInt'' IntTy)"
    by (simp add: isDependentType_def IntTy_def)
  have h2: "getCanonicalType (Ty (IntegerLiteral IntTy ''1''))
              = getCanonicalType (NameAliasType ''MyInt'' IntTy)"
    by simp
  from identity_rank[OF h1 h2] h1 h2 show ?thesis by simp
qed

text \<open>
  Claim C7: for an expression that is not a grouping parenthesis and a function
  destination type whose canonical type differs from the expression's, the rank is
  \<open>CR_Invalid\<close> when the rank of the expression against the function's result type is
  \<open>CR_Invalid\<close> and \<open>CR_AutoClosure\<close> for every other rank; when the inner
  conversion stops without a rank, so does the outer one.
\<close>

theorem autoclosure_rank:
  assumes "getAsFunctionType F = Some (FTInput, FTResult)"
    and "getCanonicalType (Ty E) \<noteq> getCanonicalType F"
    and "groupingParenSubExpr E = None"
  shows "getConversionRank E F =
           (case getConversionRank E FTResult of
              Inl err \<Rightarrow> Inl err
            | Inr Rank \<Rightarrow> Inr (if Rank = CR_Invalid then CR_Invalid else CR_AutoClosure))"
  using assms getAsFunctionType_facts[OF assms(1)]
  by (subst getConversionRank.simps) (simp split: sum.splits)

text \<open>
  A source of type \<open>Int\<close> against a zero-argument function type producing \<open>Int\<close> ranks
  \<open>CR_AutoClosure\<close>.
\<close>

theorem autoclosure_rank_witness:
  "getAsFunctionType (FunctionType (TupleType []) IntTy) = Some (TupleType [], IntTy)
   \<and> getCanonicalType (Ty (IntegerLiteral IntTy ''7'')) \<noteq> getCanonicalType (FunctionType (TupleType []) IntTy)
   \<and> groupingParenSubExpr (IntegerLiteral IntTy ''7'') = None
   \<and> getConversionRank (IntegerLiteral IntTy ''7'') IntTy = Inr CR_Identity
   \<and> getConversionRank (IntegerLiteral IntTy ''7'') (FunctionType (TupleType []) IntTy) = Inr CR_AutoClosure"
proof -
  have h1: "getAsFunctionType (FunctionType (TupleType []) IntTy) = Some (TupleType [], IntTy)"
    by (simp add: getAsFunctionType_def)
  have h2: "getCanonicalType (Ty (IntegerLiteral IntTy ''7''))
              \<noteq> getCanonicalType (FunctionType (TupleType []) IntTy)"
    by (simp add: IntTy_def)
  have h3: "groupingParenSubExpr (IntegerLiteral IntTy ''7'') = None"
    by (simp add: groupingParenSubExpr_def)
  have r: "getConversionRank (IntegerLiteral IntTy ''7'') IntTy = Inr CR_Identity"
    by (simp add: getConversionRank.simps isDependentType_def IntTy_def)
  from autoclosure_rank[OF h1 h2 h3] h1 h2 h3 r show ?thesis by simp
qed


section \<open>The walker: abort, reject and the pre-order result\<close>

lemma sequence_processInOrder: "VisitSequenceElements Fn es d = processInOrder Fn es d"
  by (induction es arbitrary: d) (auto split: prod.splits option.splits)

lemma tuple_processInOrder:
  "sameOutcome (VisitTupleElements Fn ss d)
     (processInOrder Fn (concat (map (\<lambda>S. case S of None \<Rightarrow> [] | Some E \<Rightarrow> [E]) ss)) d)"
proof (induction ss arbitrary: d)
  case Nil
  show ?case by (simp add: sameOutcome_def)
next
  case (Cons s ss)
  show ?case
  proof (cases s)
    case None
    with Cons[of d] show ?thesis
      by (auto simp: sameOutcome_def split: prod.splits option.splits)
  next
    case (Some e)
    show ?thesis
    proof (cases "ProcessNode Fn e d")
      case (Pair r d1)
      with Some Cons[of d1] show ?thesis
        by (cases r) (auto simp: sameOutcome_def split: prod.splits option.splits)
    qed
  qed
qed

lemma sameOutcome_step:
  assumes "\<And>d1. sameOutcome (f d1) (g d1)"
  shows "sameOutcome
           (case ProcessNode Fn e d of (None, d1) \<Rightarrow> (None, d1)
            | (Some e', d1) \<Rightarrow> (case f d1 of (None, d2) \<Rightarrow> (None, d2) | (Some r, d2) \<Rightarrow> (Some (h e' r), d2)))
           (case ProcessNode Fn e d of (None, d1) \<Rightarrow> (None, d1)
            | (Some e', d1) \<Rightarrow> (case g d1 of (None, d2) \<Rightarrow> (None, d2) | (Some r, d2) \<Rightarrow> (Some (k e' r), d2)))"
proof (cases "ProcessNode Fn e d")
  case (Pair r d1)
  with assms[of d1] show ?thesis
    by (cases r) (auto simp: sameOutcome_def split: prod.splits option.splits)
qed

lemma sameOutcome_skip:
  assumes "sameOutcome x y"
  shows "sameOutcome (case x of (None, d2) \<Rightarrow> (None, d2) | (Some r, d2) \<Rightarrow> (Some (h r), d2)) y"
  using assms by (auto simp: sameOutcome_def split: prod.splits option.splits)

lemma brace_processInOrder:
  "sameOutcome (VisitBraceElements Fn bs d) (processInOrder Fn (concat (map braceChildren bs)) d)"
proof (induction bs arbitrary: d)
  case Nil
  show ?case by (simp add: sameOutcome_def)
next
  case (Cons b bs)
  show ?case
  proof (cases b)
    case (ElementExpr E)
    then show ?thesis
      using sameOutcome_step[of "VisitBraceElements Fn bs"
              "processInOrder Fn (concat (map braceChildren bs))", OF Cons]
      by simp
  next
    case (ElementDecl D)
    show ?thesis
    proof (cases D)
      case (ValueDecl N I)
      show ?thesis
      proof (cases I)
        case None
        with ElementDecl ValueDecl show ?thesis using sameOutcome_skip[OF Cons[of d]] by simp
      next
        case (Some InitExpr)
        with ElementDecl ValueDecl show ?thesis
          using sameOutcome_step[of "VisitBraceElements Fn bs"
                  "processInOrder Fn (concat (map braceChildren bs))", OF Cons]
          by simp
      qed
    next
      case (OtherDecl N)
      with ElementDecl show ?thesis using sameOutcome_skip[OF Cons[of d]] by simp
    qed
  qed
qed

lemma visit_processInOrder:
  "sameOutcome (Visit Fn E d) (processInOrder Fn (directChildren E) d)"
proof (cases E)
  case (TupleExpr T ss flag)
  then show ?thesis using tuple_processInOrder[of Fn ss d]
    by (auto simp: sameOutcome_def split: prod.splits option.splits)
next
  case (UnresolvedDotExpr T S N)
  then show ?thesis
    by (cases S) (auto simp: sameOutcome_def split: prod.splits option.splits)
next
  case (BraceExpr T bs)
  then show ?thesis using brace_processInOrder[of Fn bs d]
    by (auto simp: sameOutcome_def split: prod.splits option.splits)
qed (auto simp: sameOutcome_def sequence_processInOrder split: prod.splits option.splits)

lemma processInOrder_abort:
  "processInOrder Fn before d0 = (Some before', d1) \<Longrightarrow> ProcessNode Fn c d1 = (None, d2)
     \<Longrightarrow> processInOrder Fn (before @ c # after) d0 = (None, d2)"
  by (induction before arbitrary: d0 before') (auto split: prod.splits option.splits)

lemma walker_ignores_preorder_node:
  "ProcessNode (withPreOrderResult g Fn) E d = ProcessNode Fn E d"
  "Visit (withPreOrderResult g Fn) E d = Visit Fn E d"
  "VisitTupleElements (withPreOrderResult g Fn) ss d = VisitTupleElements Fn ss d"
  "VisitSequenceElements (withPreOrderResult g Fn) es d = VisitSequenceElements Fn es d"
  "VisitBraceElements (withPreOrderResult g Fn) bs d = VisitBraceElements Fn bs d"
proof (induction Fn E d and Fn E d and Fn ss d and Fn es d and Fn bs d rule: ProcessNode_Visit_VisitTupleElements_VisitSequenceElements_VisitBraceElements.induct)
  case (1 Fn E Data)
  show ?case
  proof (cases "Fn E Walk_PreOrder Data")
    case (Pair r d1)
    show ?thesis
    proof (cases r)
      case None
      with Pair show ?thesis by (simp add: ProcessNode.simps[of _ E Data] withPreOrderResult_def)
    next
      case (Some E2)
      with Pair 1 show ?thesis
        by (simp add: ProcessNode.simps[of _ E Data] withPreOrderResult_def split: prod.splits option.splits)
    qed
  qed
qed (auto split: prod.splits option.splits)


text \<open>
  Claim C8: when the pre-order call did not reject node \<open>E\<close>, the children before
  \<open>Child\<close> were processed without abort and processing \<open>Child\<close> aborts, then the walk
  of \<open>E\<close> aborts, and its data is the data right after \<open>Child\<close>: no later sibling is
  processed and the post-order call for \<open>E\<close> is not made, whatever the walk function
  records in its data.
\<close>

theorem walker_abort:
  assumes "Fn E Walk_PreOrder Data = (Some E2, Data0)"
    and "directChildren E = before @ Child # after"
    and "processInOrder Fn before Data0 = (Some before', Data1)"
    and "ProcessNode Fn Child Data1 = (None, Data2)"
  shows "ProcessNode Fn E Data = (None, Data2) \<and> WalkExpr Fn E Data = (None, Data2)"
proof -
  from processInOrder_abort[OF assms(3) assms(4), of after] assms(2)
  have "processInOrder Fn (directChildren E) Data0 = (None, Data2)" by simp
  with visit_processInOrder[of Fn E Data0] have "Visit Fn E Data0 = (None, Data2)"
    by (cases "Visit Fn E Data0") (simp add: sameOutcome_def)
  with assms(1) have "ProcessNode Fn E Data = (None, Data2)"
    by (simp add: ProcessNode.simps[of Fn E Data])
  then show ?thesis by (simp add: WalkExpr_def)
qed

text \<open>
  The application \<open>f(x)\<close> with a walk function that aborts at the post-order call for
  \<open>f\<close>: the log holds the calls for \<open>f(x)\<close> and \<open>f\<close> only, never one for \<open>x\<close>.
\<close>

theorem walker_abort_witness:
  "abortAtPostOrderOf exCallee exApply Walk_PreOrder [] = (Some exApply, [(exApply, Walk_PreOrder)])
   \<and> directChildren exApply = [] @ exCallee # [exArg]
   \<and> processInOrder (abortAtPostOrderOf exCallee) [] [(exApply, Walk_PreOrder)]
        = (Some [], [(exApply, Walk_PreOrder)])
   \<and> ProcessNode (abortAtPostOrderOf exCallee) exCallee [(exApply, Walk_PreOrder)]
        = (None, [(exApply, Walk_PreOrder), (exCallee, Walk_PreOrder), (exCallee, Walk_PostOrder)])
   \<and> WalkExpr (abortAtPostOrderOf exCallee) exApply []
        = (None, [(exApply, Walk_PreOrder), (exCallee, Walk_PreOrder), (exCallee, Walk_PostOrder)])"
proof -
  have h1: "abortAtPostOrderOf exCallee exApply Walk_PreOrder []
              = (Some exApply, [(exApply, Walk_PreOrder)])"
    by (simp add: ex_defs)
  have h2: "directChildren exApply = [] @ exCallee # [exArg]"
    by (simp add: ex_defs)
  have h3: "processInOrder (abortAtPostOrderOf exCallee) [] [(exApply, Walk_PreOrder)]
              = (Some [], [(exApply, Walk_PreOrder)])"
    by simp
  have h4: "ProcessNode (abortAtPostOrderOf exCallee) exCallee [(exApply, Walk_PreOrder)]
              = (None, [(exApply, Walk_PreOrder), (exCallee, Walk_PreOrder), (exCallee, Walk_PostOrder)])"
    by (simp add: ex_defs ProcessNode.simps)
  from walker_abort[OF h1 h2 h3 h4] h1 h2 h3 h4 show ?thesis by simp
qed

lemma tuple_children:
  "VisitTupleElements Fn ss d =
     (case processInOrder Fn (concat (map (\<lambda>S. case S of None \<Rightarrow> [] | Some E \<Rightarrow> [E]) ss)) d of
        (None, d1) \<Rightarrow> (None, d1)
      | (Some cs, d1) \<Rightarrow> (Some (replaceTupleElements ss cs), d1))"
proof (induction ss arbitrary: d)
  case Nil
  show ?case by simp
next
  case (Cons s ss)
  show ?case
  proof (cases s)
    case None
    with Cons[of d] show ?thesis by (simp split: prod.splits option.splits)
  next
    case (Some e)
    show ?thesis
    proof (cases "ProcessNode Fn e d")
      case (Pair r d1)
      with Some Cons[of d1] show ?thesis
        by (cases r) (simp_all split: prod.splits option.splits)
    qed
  qed
qed

lemma brace_children:
  "VisitBraceElements Fn bs d =
     (case processInOrder Fn (concat (map braceChildren bs)) d of
        (None, d1) \<Rightarrow> (None, d1)
      | (Some cs, d1) \<Rightarrow> (Some (replaceBraceElements bs cs), d1))"
proof (induction bs arbitrary: d)
  case Nil
  show ?case by simp
next
  case (Cons b bs)
  show ?case
  proof (cases b)
    case (ElementExpr e)
    show ?thesis
    proof (cases "ProcessNode Fn e d")
      case (Pair r d1)
      with ElementExpr Cons[of d1] show ?thesis
        by (cases r) (simp_all split: prod.splits option.splits)
    qed
  next
    case (ElementDecl D)
    show ?thesis
    proof (cases D)
      case (ValueDecl N I)
      show ?thesis
      proof (cases I)
        case None
        with ElementDecl ValueDecl Cons[of d] show ?thesis
          by (simp split: prod.splits option.splits)
      next
        case (Some e)
        show ?thesis
        proof (cases "ProcessNode Fn e d")
          case (Pair r d1)
          with ElementDecl ValueDecl Some Cons[of d1] show ?thesis
            by (cases r) (simp_all split: prod.splits option.splits)
        qed
      qed
    next
      case (OtherDecl N)
      with ElementDecl Cons[of d] show ?thesis by (simp split: prod.splits option.splits)
    qed
  qed
qed

lemma visit_children:
  "Visit Fn E d =
     (case processInOrder Fn (directChildren E) d of
        (None, d1) \<Rightarrow> (None, d1)
      | (Some cs, d1) \<Rightarrow> (Some (withChildren E cs), d1))"
proof (cases E)
  case (TupleExpr T ss flag)
  then show ?thesis by (simp add: tuple_children split: prod.splits option.splits)
next
  case (UnresolvedDotExpr T S N)
  then show ?thesis by (cases S) (simp_all split: prod.splits option.splits)
next
  case (BraceExpr T bs)
  then show ?thesis by (simp add: brace_children split: prod.splits option.splits)
qed (simp_all add: sequence_processInOrder split: prod.splits option.splits)

lemma processInOrder_append:
  "processInOrder Fn (xs @ ys) d =
     (case processInOrder Fn xs d of
        (None, d1) \<Rightarrow> (None, d1)
      | (Some xs', d1) \<Rightarrow>
          (case processInOrder Fn ys d1 of
             (None, d2) \<Rightarrow> (None, d2)
           | (Some ys', d2) \<Rightarrow> (Some (xs' @ ys'), d2)))"
  by (induction xs arbitrary: d) (simp_all split: prod.splits option.splits)

text \<open>
  Claim C9: when the pre-order call rejects a node, \<open>ProcessNode\<close> returns that node
  unchanged with the data of the pre-order call (no child is visited and no post-order
  call is made). The walk then goes on: the loops over sequence elements, tuple elements
  and block items continue with the remaining elements, and for a parent of any kind
  that has the node among its children, the remaining siblings are processed from that
  data on and, unless one of them aborts, the parent's post-order call is made on the
  parent with the rejected node unchanged in its slot. The result of that call is what
  the parent's own parent receives.
\<close>

theorem preorder_reject:
  assumes "Fn E Walk_PreOrder Data = (None, Data1)"
  shows "ProcessNode Fn E Data = (Some E, Data1)
       \<and> VisitSequenceElements Fn (E # rest) Data =
           (case VisitSequenceElements Fn rest Data1 of
              (None, Data2) \<Rightarrow> (None, Data2)
            | (Some rest', Data2) \<Rightarrow> (Some (E # rest'), Data2))
       \<and> VisitTupleElements Fn (Some E # elts) Data =
           (case VisitTupleElements Fn elts Data1 of
              (None, Data2) \<Rightarrow> (None, Data2)
            | (Some elts', Data2) \<Rightarrow> (Some (Some E # elts'), Data2))
       \<and> VisitBraceElements Fn (ElementExpr E # items) Data =
           (case VisitBraceElements Fn items Data1 of
              (None, Data2) \<Rightarrow> (None, Data2)
            | (Some items', Data2) \<Rightarrow> (Some (ElementExpr E # items'), Data2))
       \<and> (\<forall>Parent ParentData E2 Data0 before before' after.
             Fn Parent Walk_PreOrder ParentData = (Some E2, Data0)
             \<and> directChildren Parent = before @ E # after
             \<and> processInOrder Fn before Data0 = (Some before', Data)
             \<longrightarrow> ProcessNode Fn Parent ParentData =
                   (case processInOrder Fn after Data1 of
                      (None, Data2) \<Rightarrow> (None, Data2)
                    | (Some after', Data2) \<Rightarrow>
                        Fn (withChildren Parent (before' @ E # after')) Walk_PostOrder Data2))"
proof -
  have p: "ProcessNode Fn E Data = (Some E, Data1)"
    using assms by (simp add: ProcessNode.simps[of Fn E Data])
  have parent: "ProcessNode Fn Parent ParentData =
                   (case processInOrder Fn after Data1 of
                      (None, Data2) \<Rightarrow> (None, Data2)
                    | (Some after', Data2) \<Rightarrow>
                        Fn (withChildren Parent (before' @ E # after')) Walk_PostOrder Data2)"
    if a: "Fn Parent Walk_PreOrder ParentData = (Some E2, Data0)"
      and c: "directChildren Parent = before @ E # after"
      and b: "processInOrder Fn before Data0 = (Some before', Data)"
    for Parent ParentData E2 Data0 before before' after
  proof -
    have "processInOrder Fn (directChildren Parent) Data0 =
            (case processInOrder Fn after Data1 of
               (None, Data2) \<Rightarrow> (None, Data2)
             | (Some after', Data2) \<Rightarrow> (Some (before' @ E # after'), Data2))"
      unfolding c by (simp add: processInOrder_append b p split: prod.splits option.splits)
    then show ?thesis
      by (simp add: ProcessNode.simps[of Fn Parent ParentData] a visit_children
            split: prod.splits option.splits)
  qed
  from p parent show ?thesis by simp
qed


text \<open>
  A three-element sequence whose second element is rejected: its child is not in the
  log, the other two elements are visited, and the walk returns the sequence. In a
  tuple node the element after the rejected one is visited as well.
\<close>

theorem preorder_reject_witness:
  "rejectAtPreOrderOf exSecond exSecond Walk_PreOrder
       [(exSequence, Walk_PreOrder), (exFirst, Walk_PreOrder), (exFirst, Walk_PostOrder)]
     = (None, [(exSequence, Walk_PreOrder), (exFirst, Walk_PreOrder), (exFirst, Walk_PostOrder),
               (exSecond, Walk_PreOrder)])
   \<and> ProcessNode (rejectAtPreOrderOf exSecond) exSecond
       [(exSequence, Walk_PreOrder), (exFirst, Walk_PreOrder), (exFirst, Walk_PostOrder)]
     = (Some exSecond,
        [(exSequence, Walk_PreOrder), (exFirst, Walk_PreOrder), (exFirst, Walk_PostOrder),
         (exSecond, Walk_PreOrder)])
   \<and> rejectAtPreOrderOf exSecond exSequence Walk_PreOrder []
     = (Some exSequence, [(exSequence, Walk_PreOrder)])
   \<and> directChildren exSequence = [exFirst] @ exSecond # [exThird]
   \<and> processInOrder (rejectAtPreOrderOf exSecond) [exFirst] [(exSequence, Walk_PreOrder)]
     = (Some [exFirst],
        [(exSequence, Walk_PreOrder), (exFirst, Walk_PreOrder), (exFirst, Walk_PostOrder)])
   \<and> WalkExpr (rejectAtPreOrderOf exSecond) exSequence []
     = (Some exSequence,
        [(exSequence, Walk_PreOrder), (exFirst, Walk_PreOrder), (exFirst, Walk_PostOrder),
         (exSecond, Walk_PreOrder), (exThird, Walk_PreOrder), (exThird, Walk_PostOrder),
         (exSequence, Walk_PostOrder)])
   \<and> WalkExpr (rejectAtPreOrderOf exSecond) exTuplePair []
     = (Some exTuplePair,
        [(exTuplePair, Walk_PreOrder), (exSecond, Walk_PreOrder), (exThird, Walk_PreOrder),
         (exThird, Walk_PostOrder), (exTuplePair, Walk_PostOrder)])"
proof -
  have h: "rejectAtPreOrderOf exSecond exSecond Walk_PreOrder
       [(exSequence, Walk_PreOrder), (exFirst, Walk_PreOrder), (exFirst, Walk_PostOrder)]
     = (None, [(exSequence, Walk_PreOrder), (exFirst, Walk_PreOrder), (exFirst, Walk_PostOrder),
               (exSecond, Walk_PreOrder)])"
    by (simp add: rejectAtPreOrderOf_def)
  have a: "rejectAtPreOrderOf exSecond exSequence Walk_PreOrder []
     = (Some exSequence, [(exSequence, Walk_PreOrder)])"
    by (simp add: ex_defs)
  have c: "directChildren exSequence = [exFirst] @ exSecond # [exThird]"
    by (simp add: exSequence_def)
  have b: "processInOrder (rejectAtPreOrderOf exSecond) [exFirst] [(exSequence, Walk_PreOrder)]
     = (Some [exFirst],
        [(exSequence, Walk_PreOrder), (exFirst, Walk_PreOrder), (exFirst, Walk_PostOrder)])"
    by (simp add: ex_defs ProcessNode.simps)
  have t: "WalkExpr (rejectAtPreOrderOf exSecond) exTuplePair []
     = (Some exTuplePair,
        [(exTuplePair, Walk_PreOrder), (exSecond, Walk_PreOrder), (exThird, Walk_PreOrder),
         (exThird, Walk_PostOrder), (exTuplePair, Walk_PostOrder)])"
    by (simp add: ex_defs exTuplePair_def WalkExpr_def ProcessNode.simps)
  note r = preorder_reject[of "rejectAtPreOrderOf exSecond" exSecond
         "[(exSequence, Walk_PreOrder), (exFirst, Walk_PreOrder), (exFirst, Walk_PostOrder)]"
         "[(exSequence, Walk_PreOrder), (exFirst, Walk_PreOrder), (exFirst, Walk_PostOrder),
           (exSecond, Walk_PreOrder)]" "[exThird]", OF h]
  from r have p: "ProcessNode (rejectAtPreOrderOf exSecond) exSecond
       [(exSequence, Walk_PreOrder), (exFirst, Walk_PreOrder), (exFirst, Walk_PostOrder)]
     = (Some exSecond,
        [(exSequence, Walk_PreOrder), (exFirst, Walk_PreOrder), (exFirst, Walk_PostOrder),
         (exSecond, Walk_PreOrder)])"
    by (rule conjunct1)
  from r have "\<forall>Parent ParentData E2 Data0 before before' after.
             rejectAtPreOrderOf exSecond Parent Walk_PreOrder ParentData = (Some E2, Data0)
             \<and> directChildren Parent = before @ exSecond # after
             \<and> processInOrder (rejectAtPreOrderOf exSecond) before Data0
                 = (Some before',
                    [(exSequence, Walk_PreOrder), (exFirst, Walk_PreOrder), (exFirst, Walk_PostOrder)])
             \<longrightarrow> ProcessNode (rejectAtPreOrderOf exSecond) Parent ParentData =
                   (case processInOrder (rejectAtPreOrderOf exSecond) after
                           [(exSequence, Walk_PreOrder), (exFirst, Walk_PreOrder),
                            (exFirst, Walk_PostOrder), (exSecond, Walk_PreOrder)] of
                      (None, Data2) \<Rightarrow> (None, Data2)
                    | (Some after', Data2) \<Rightarrow>
                        rejectAtPreOrderOf exSecond (withChildren Parent (before' @ exSecond # after'))
                          Walk_PostOrder Data2)"
    by blast
  from this[rule_format, OF conjI[OF a conjI[OF c b]]]
  have w: "WalkExpr (rejectAtPreOrderOf exSecond) exSequence []
     = (Some exSequence,
        [(exSequence, Walk_PreOrder), (exFirst, Walk_PreOrder), (exFirst, Walk_PostOrder),
         (exSecond, Walk_PreOrder), (exThird, Walk_PreOrder), (exThird, Walk_PostOrder),
         (exSequence, Walk_PostOrder)])"
    by (simp add: ex_defs WalkExpr_def ProcessNode.simps)
  from h p a c b w t show ?thesis by blast
qed

text \<open>
  Claim C10: replacing every non-null node returned by the pre-order call by any other
  node changes neither the result nor the data of the walk: the walker only tests that
  result against null and goes on with the original node.
\<close>

theorem preorder_result_ignored:
  "ProcessNode (withPreOrderResult g Fn) E Data = ProcessNode Fn E Data
   \<and> WalkExpr (withPreOrderResult g Fn) E Data = WalkExpr Fn E Data"
  by (simp add: walker_ignores_preorder_node(1) WalkExpr_def)


end
